theory Spec2Isabelle
  imports Main "HOL-Library.Char_ord" "HOL-Library.List_Lexorder" "HOL-Library.AList"
begin

section \<open>Python strings\<close>

text \<open>
  Text is modelled as \<^typ>\<open>string\<close>, one \<^typ>\<open>char\<close> per character, the character
  with code point \<open>n\<close> being the \<^typ>\<open>char\<close> of value \<open>n\<close>; this covers the
  code points below 256 (Latin-1), ASCII among them. On these, \<^verbatim>\<open>str.strip\<close>,
  \<^verbatim>\<open>str.lower\<close> and \<^verbatim>\<open>str.upper\<close> are as below, with one limit: the capitals
  of U+00B5 and U+00FF lie beyond code point 255, so these two letters, which
  \<^verbatim>\<open>str.upper\<close> changes, are left as they are here.
\<close>

definition is_space :: "char \<Rightarrow> bool" where
  \<comment> \<open>the characters for which \<^verbatim>\<open>str.isspace\<close> holds, removed by \<^verbatim>\<open>str.strip()\<close>\<close>
  "is_space c = (c \<in> set [CHR 0x09, CHR 0x0A, CHR 0x0B, CHR 0x0C, CHR 0x0D,
                            CHR 0x1C, CHR 0x1D, CHR 0x1E, CHR 0x1F, CHR 0x20,
                            CHR 0x85, CHR 0xA0])"

definition strip :: "string \<Rightarrow> string" where
  "strip s = rev (dropWhile is_space (rev (dropWhile is_space s)))"

definition upper_char :: "char \<Rightarrow> string" where
  \<comment> \<open>the capital of a letter; that of U+00DF is the two letters \<open>SS\<close>\<close>
  "upper_char c =
     (if c = CHR 0xDF then ''SS''
      else
        [case map_of
                (zip (''abcdefghijklmnopqrstuvwxyz''
                      @ [CHR 0xE0, CHR 0xE1, CHR 0xE2, CHR 0xE3, CHR 0xE4, CHR 0xE5,
                         CHR 0xE6, CHR 0xE7, CHR 0xE8, CHR 0xE9, CHR 0xEA, CHR 0xEB,
                         CHR 0xEC, CHR 0xED, CHR 0xEE, CHR 0xEF, CHR 0xF0, CHR 0xF1,
                         CHR 0xF2, CHR 0xF3, CHR 0xF4, CHR 0xF5, CHR 0xF6, CHR 0xF8,
                         CHR 0xF9, CHR 0xFA, CHR 0xFB, CHR 0xFC, CHR 0xFD, CHR 0xFE])
                   (''ABCDEFGHIJKLMNOPQRSTUVWXYZ''
                    @ [CHR 0xC0, CHR 0xC1, CHR 0xC2, CHR 0xC3, CHR 0xC4, CHR 0xC5,
                       CHR 0xC6, CHR 0xC7, CHR 0xC8, CHR 0xC9, CHR 0xCA, CHR 0xCB,
                       CHR 0xCC, CHR 0xCD, CHR 0xCE, CHR 0xCF, CHR 0xD0, CHR 0xD1,
                       CHR 0xD2, CHR 0xD3, CHR 0xD4, CHR 0xD5, CHR 0xD6, CHR 0xD8,
                       CHR 0xD9, CHR 0xDA, CHR 0xDB, CHR 0xDC, CHR 0xDD, CHR 0xDE])) c of
           Some d \<Rightarrow> d | None \<Rightarrow> c])"

definition lower_char :: "char \<Rightarrow> char" where
  "lower_char c =
     (case map_of
             (zip (''ABCDEFGHIJKLMNOPQRSTUVWXYZ''
                   @ [CHR 0xC0, CHR 0xC1, CHR 0xC2, CHR 0xC3, CHR 0xC4, CHR 0xC5,
                      CHR 0xC6, CHR 0xC7, CHR 0xC8, CHR 0xC9, CHR 0xCA, CHR 0xCB,
                      CHR 0xCC, CHR 0xCD, CHR 0xCE, CHR 0xCF, CHR 0xD0, CHR 0xD1,
                      CHR 0xD2, CHR 0xD3, CHR 0xD4, CHR 0xD5, CHR 0xD6, CHR 0xD8,
                      CHR 0xD9, CHR 0xDA, CHR 0xDB, CHR 0xDC, CHR 0xDD, CHR 0xDE])
                (''abcdefghijklmnopqrstuvwxyz''
                 @ [CHR 0xE0, CHR 0xE1, CHR 0xE2, CHR 0xE3, CHR 0xE4, CHR 0xE5,
                    CHR 0xE6, CHR 0xE7, CHR 0xE8, CHR 0xE9, CHR 0xEA, CHR 0xEB,
                    CHR 0xEC, CHR 0xED, CHR 0xEE, CHR 0xEF, CHR 0xF0, CHR 0xF1,
                    CHR 0xF2, CHR 0xF3, CHR 0xF4, CHR 0xF5, CHR 0xF6, CHR 0xF8,
                    CHR 0xF9, CHR 0xFA, CHR 0xFB, CHR 0xFC, CHR 0xFD, CHR 0xFE])) c of
        Some d \<Rightarrow> d | None \<Rightarrow> c)"

definition upper :: "string \<Rightarrow> string" where
  "upper s = concat (map upper_char s)"

definition lower :: "string \<Rightarrow> string" where
  "lower s = map lower_char s"

fun startswith :: "string \<Rightarrow> string \<Rightarrow> bool" where
  \<comment> \<open>\<^verbatim>\<open>s.startswith(p)\<close>\<close>
  "startswith s [] = True"
| "startswith [] (p # ps) = False"
| "startswith (c # s) (p # ps) = (c = p \<and> startswith s ps)"

fun py_in :: "string \<Rightarrow> string \<Rightarrow> bool" where
  \<comment> \<open>\<^verbatim>\<open>needle in hay\<close> on two strings: \<open>needle\<close> occurs in \<open>hay\<close> as a contiguous run\<close>
  "py_in needle [] = (needle = [])"
| "py_in needle (h # hay) = (startswith (h # hay) needle \<or> py_in needle hay)"

section \<open>The dictionary resolver (\<^verbatim>\<open>src/utils/email_resolver.py\<close>)\<close>

text \<open>
  \<^verbatim>\<open>email_mapping\<close> is a Python \<^verbatim>\<open>dict\<close>: keys are unique and iteration follows
  insertion order, which Tier 2 depends on. It is an association list; an assignment
  \<^verbatim>\<open>d[k] = v\<close> is \<^const>\<open>AList.update\<close> (replace in place, or append a new key).
  \<^verbatim>\<open>unmapped_users\<close> is a Python \<^verbatim>\<open>set\<close>.
\<close>

record EmailResolver =
  email_mapping :: "(string \<times> string) list"
  unmapped_users :: "string set"

definition partial_match :: "string \<Rightarrow> (string \<times> string) \<Rightarrow> bool" where
  \<comment> \<open>\<^verbatim>\<open>clean_username in eng_id or eng_id in clean_username\<close>\<close>
  "partial_match clean_username kv =
     (py_in clean_username (fst kv) \<or> py_in (fst kv) clean_username)"

definition resolve_email :: "string \<Rightarrow> EmailResolver \<Rightarrow> string option \<times> EmailResolver" where
  "resolve_email username r =
     (if username = [] then (None, r)
      else
        let clean_username = upper (strip username) in
        (case map_of (email_mapping r) clean_username of
           Some email \<Rightarrow> (Some email, r)
         | None \<Rightarrow>
            (case find (partial_match clean_username) (email_mapping r) of
               Some kv \<Rightarrow> (Some (snd kv), r)
             | None \<Rightarrow>
                 (None, r\<lparr>unmapped_users := insert username (unmapped_users r)\<rparr>))))"

definition add_manual_mapping :: "string \<Rightarrow> string \<Rightarrow> EmailResolver \<Rightarrow> EmailResolver" where
  "add_manual_mapping username email r =
     (if username \<noteq> [] \<and> email \<noteq> [] \<and> CHR ''@'' \<in> set email then
        r\<lparr>email_mapping := AList.update (upper (strip username)) (strip email) (email_mapping r),
          unmapped_users := unmapped_users r - {username}\<rparr>
      else r)"

section \<open>Configuration (\<^verbatim>\<open>config/settings.py\<close>)\<close>

definition REQUIRED_COLUMNS :: "string list" where
  "REQUIRED_COLUMNS =
     [''Plnt'', ''Ship-To-Plant'', ''ERF Nr'', ''Item'', ''Entered by'',
      ''Material'', ''Material Description'', ''Unit'', ''ERF Itm Qty'',
      ''ERF Sched Line Status'', ''END'', ''PO Due Date'', ''Expeditor'',
      ''Expeditor Status'', ''Expeditor Remarks'']"

definition TARGET_STATUSES :: "string list" where
  "TARGET_STATUSES = [''On order'', ''Received'']"

section \<open>Data frames\<close>

text \<open>
  A pandas frame is its column labels and its rows, each row holding one cell per column.
  A blank spreadsheet cell is \<open>NaN\<close>; any other scalar is carried as its \<^verbatim>\<open>str()\<close>
  text. Frames are rectangular; a cell read beyond the end of a row is \<open>NaN\<close>.
\<close>

datatype cell = NaN | Text string

record DataFrame =
  columns :: "string list"
  rows :: "cell list list"

fun index_of :: "string \<Rightarrow> string list \<Rightarrow> nat option" where
  "index_of col [] = None"
| "index_of col (c # cs) =
     (if c = col then Some 0 else map_option Suc (index_of col cs))"

definition cell_at :: "DataFrame \<Rightarrow> string \<Rightarrow> cell list \<Rightarrow> cell" where
  \<comment> \<open>the value of column \<open>col\<close> in one row of \<open>df\<close>\<close>
  "cell_at df col row =
     (case index_of col (columns df) of
        None \<Rightarrow> NaN
      | Some i \<Rightarrow> (if i < length row then row ! i else NaN))"

definition df_empty :: "DataFrame \<Rightarrow> bool" where
  \<comment> \<open>\<^verbatim>\<open>df.empty\<close>: some axis has length 0\<close>
  "df_empty df = (rows df = [] \<or> columns df = [])"

definition str_cell :: "cell \<Rightarrow> string" where
  "str_cell c = (case c of NaN \<Rightarrow> ''nan'' | Text s \<Rightarrow> s)"

definition isin :: "cell \<Rightarrow> string list \<Rightarrow> bool" where
  "isin c values = (case c of NaN \<Rightarrow> False | Text s \<Rightarrow> s \<in> set values)"

text \<open>
  \<^verbatim>\<open>DataFrame.groupby(col)\<close> with pandas' default \<^verbatim>\<open>sort=True\<close>: one group per
  distinct key, the groups in ascending order of the key (strings compare by code point,
  lexicographically), each group holding its rows in their original order.
\<close>

definition groupby :: "string \<Rightarrow> DataFrame \<Rightarrow> (string \<times> DataFrame) list" where
  "groupby col df =
     map (\<lambda>k. (k, df\<lparr>rows := filter (\<lambda>row. cell_at df col row = Text k) (rows df)\<rparr>))
       (sort (remdups (concat (map (\<lambda>row. case cell_at df col row of
                                               NaN \<Rightarrow> [] | Text s \<Rightarrow> [s]) (rows df)))))"

section \<open>Comparing a count with a fraction of a count\<close>

text \<open>
  The thresholds are written \<^verbatim>\<open>k > n * 0.7\<close> and \<^verbatim>\<open>k > n * 0.8\<close> with integers
  \<open>k\<close>, \<open>n\<close> and a double constant. The product is an IEEE double: \<open>n\<close> is converted
  to a double, multiplied exactly and rounded to 53 significant bits (round half to even);
  the comparison with the integer \<open>k\<close> is then exact. Doubles are carried as numerators
  over \<open>2 ^ 53\<close>: \<open>0.7\<close> is \<open>6305039478318694 / 2 ^ 53\<close> and \<open>0.8\<close> is
  \<open>7205759403792794 / 2 ^ 53\<close>. With this, 63 unnamed columns out of 90 exceed
  \<^verbatim>\<open>90 * 0.7\<close>, which is \<open>62.99999999999999\<close>.
\<close>

fun bit_length :: "nat \<Rightarrow> nat" where
  "bit_length n = (if n = 0 then 0 else Suc (bit_length (n div 2)))"

declare bit_length.simps [simp del]

definition round53 :: "nat \<Rightarrow> nat" where
  \<comment> \<open>round a positive integer to 53 significant bits, ties to even\<close>
  "round53 x =
     (let k = bit_length x in
      if k \<le> 53 then x
      else
        let s = k - 53; q = x div 2 ^ s; r = x mod 2 ^ s; h = 2 ^ (s - 1)
        in (if h < r \<or> (r = h \<and> odd q) then q + 1 else q) * 2 ^ s)"

definition float_0_7 :: nat where
  "float_0_7 = 6305039478318694"

definition float_0_8 :: nat where
  "float_0_8 = 7205759403792794"

definition gt_times :: "nat \<Rightarrow> nat \<Rightarrow> nat \<Rightarrow> bool" where
  \<comment> \<open>\<^verbatim>\<open>k > n * c\<close> for the double \<open>c = m / 2 ^ 53\<close>\<close>
  "gt_times k n m = (round53 (round53 n * m) < k * 2 ^ 53)"

section \<open>The sheet selector, filter and grouper (\<^verbatim>\<open>src/data/excel_processor.py\<close>)\<close>

definition pivot_indicators :: "string list" where
  "pivot_indicators =
     [''column labels'', ''row labels'', ''count of'', ''sum of'', ''grand total'']"

fun join_space :: "string list \<Rightarrow> string" where
  \<comment> \<open>\<^verbatim>\<open>' '.join(xs)\<close>\<close>
  "join_space [] = []"
| "join_space [x] = x"
| "join_space (x # y # ys) = x @ '' '' @ join_space (y # ys)"

definition first_few_cells :: "DataFrame \<Rightarrow> string list" where
  \<comment> \<open>the lowercased text of the cells \<open>(i, j)\<close>, \<open>i < min 5 (len df)\<close>,
      \<open>j < min 5 (len df.columns)\<close>, row by row\<close>
  "first_few_cells df =
     concat (map (\<lambda>row. map (\<lambda>c. lower (str_cell c)) (take (min 5 (length (columns df))) row))
               (take (min 5 (length (rows df))) (rows df)))"

definition pivot_indicator_found :: "DataFrame \<Rightarrow> bool" where
  \<comment> \<open>the last test of \<^verbatim>\<open>_is_real_pivot_table\<close>: some indicator occurs in the joined text\<close>
  "pivot_indicator_found df =
     list_ex (\<lambda>indicator. py_in indicator (join_space (first_few_cells df))) pivot_indicators"

definition is_real_pivot_table :: "DataFrame \<Rightarrow> bool" where
  "is_real_pivot_table df =
     (if length (rows df) < 3 then False
      else if gt_times (length (filter (py_in ''Unnamed:'') (columns df)))
                (length (columns df)) float_0_7 then True
      else if gt_times (length (filter (\<lambda>c. c = NaN) (hd (rows df))))
                (length (columns df)) float_0_8 then True
      else pivot_indicator_found df)"

definition score_sheet :: "DataFrame \<Rightarrow> nat" where
  "score_sheet df =
     length (filter (\<lambda>required_col. required_col \<in> set (map strip (columns df)))
               REQUIRED_COLUMNS)"

text \<open>
  A workbook is its sheets in order, each with its name and the frame read from it, or
  \<open>None\<close> when reading the sheet raises (the sheet is then skipped). The loop of
  \<^verbatim>\<open>find_data_sheet\<close> carries \<^verbatim>\<open>(best_sheet, best_score, best_data)\<close>.
\<close>

type_synonym workbook = "(string \<times> DataFrame option) list"

definition has_critical_columns :: "DataFrame \<Rightarrow> bool" where
  "has_critical_columns df =
     (''ERF Sched Line Status'' \<in> set (columns df) \<and> ''Entered by'' \<in> set (columns df))"

fun analyze_sheets ::
  "workbook \<Rightarrow> string option \<times> nat \<times> DataFrame option
     \<Rightarrow> string option \<times> nat \<times> DataFrame option" where
  "analyze_sheets [] best = best"
| "analyze_sheets ((sheet_name, None) # rest) best = analyze_sheets rest best"
| "analyze_sheets ((sheet_name, Some df) # rest) (best_sheet, best_score, best_data) =
     (if df_empty df then analyze_sheets rest (best_sheet, best_score, best_data)
      else if \<not> has_critical_columns df then
        analyze_sheets rest (best_sheet, best_score, best_data)
      else if is_real_pivot_table df then
        analyze_sheets rest (best_sheet, best_score, best_data)
      else if best_score < score_sheet df then
        analyze_sheets rest (Some sheet_name, score_sheet df, Some df)
      else analyze_sheets rest (best_sheet, best_score, best_data))"

definition find_data_sheet :: "workbook option \<Rightarrow> (string \<times> DataFrame) option" where
  \<comment> \<open>\<open>None\<close> as argument: the file cannot be opened; \<open>None\<close> as result:
      \<^verbatim>\<open>(False, None, None)\<close>\<close>
  "find_data_sheet file =
     (case file of
        None \<Rightarrow> None
      | Some sheets \<Rightarrow>
         (case analyze_sheets sheets (None, 0, None) of
            (Some best_sheet, best_score, Some best_data) \<Rightarrow>
               (if best_sheet \<noteq> [] then Some (best_sheet, best_data) else None)
          | _ \<Rightarrow> None))"

record ExcelProcessor =
  raw_data :: "DataFrame option"
  filtered_data :: "DataFrame option"
  grouped_data :: "(string \<times> DataFrame) list option"
  selected_sheet :: "string option"

definition filter_data :: "ExcelProcessor \<Rightarrow> bool \<times> ExcelProcessor" where
  "filter_data p =
     (case raw_data p of
        None \<Rightarrow> (False, p)
      | Some raw \<Rightarrow>
         if ''ERF Sched Line Status'' \<notin> set (columns raw) then (False, p)
         else
           let status_filter =
                 (\<lambda>row. isin (cell_at raw ''ERF Sched Line Status'' row) TARGET_STATUSES);
               filtered = raw\<lparr>rows := filter status_filter (rows raw)\<rparr>;
               p' = p\<lparr>filtered_data := Some filtered\<rparr>
           in if length (rows filtered) = 0 then (False, p') else (True, p'))"

definition group_by_requester :: "ExcelProcessor \<Rightarrow> bool \<times> ExcelProcessor" where
  "group_by_requester p =
     (case filtered_data p of
        None \<Rightarrow> (False, p)
      | Some fd \<Rightarrow>
         if ''Entered by'' \<notin> set (columns fd) then (False, p)
         else
           let dropped = fd\<lparr>rows := filter (\<lambda>row. cell_at fd ''Entered by'' row \<noteq> NaN) (rows fd)\<rparr>;
               clean_data =
                 dropped\<lparr>rows := filter (\<lambda>row. strip (str_cell (cell_at dropped ''Entered by'' row)) \<noteq> [])
                                     (rows dropped)\<rparr>
           in if length (rows clean_data) = 0 then (False, p)
              else (True, p\<lparr>grouped_data := Some (groupby ''Entered by'' clean_data)\<rparr>))"

definition get_grouped_data :: "ExcelProcessor \<Rightarrow> (string \<times> DataFrame) list" where
  "get_grouped_data p = (case grouped_data p of None \<Rightarrow> [] | Some groups \<Rightarrow> groups)"

definition first_occurrence_order :: "string list \<Rightarrow> string list" where
  \<comment> \<open>the order the specification words: each distinct key at its first occurrence\<close>
  "first_occurrence_order keys = rev (remdups (rev keys))"

definition requester_keys :: "DataFrame \<Rightarrow> string list" where
  \<comment> \<open>the \<^verbatim>\<open>Entered by\<close> values of the rows that survive the drop of absent, empty
      and whitespace-only keys, in row order\<close>
  "requester_keys fd =
     concat (map (\<lambda>row. case cell_at fd ''Entered by'' row of
                           NaN \<Rightarrow> []
                         | Text s \<Rightarrow> (if strip s = [] then [] else [s])) (rows fd))"

definition single_cell_marker :: "DataFrame \<Rightarrow> bool" where
  \<comment> \<open>the marker criterion as the specification words it: one cell of the window holds
      an indicator\<close>
  "single_cell_marker df =
     list_ex (\<lambda>cell_value. list_ex (\<lambda>indicator. py_in indicator cell_value) pivot_indicators)
       (first_few_cells df)"

definition eligible :: "DataFrame \<Rightarrow> bool" where
  \<comment> \<open>a sheet the selector may choose: not empty, both critical columns, not a pivot table\<close>
  "eligible df = (\<not> df_empty df \<and> has_critical_columns df \<and> \<not> is_real_pivot_table df)"

definition candidates_below :: "nat \<Rightarrow> workbook \<Rightarrow> bool" where
  \<comment> \<open>every eligible sheet among \<open>sheets\<close> scores less than \<open>n\<close>\<close>
  "candidates_below n sheets =
     (\<forall>s \<in> set sheets. \<forall>d. snd s = Some d \<and> eligible d \<longrightarrow> score_sheet d < n)"

definition candidates_upto :: "nat \<Rightarrow> workbook \<Rightarrow> bool" where
  \<comment> \<open>every eligible sheet among \<open>sheets\<close> scores at most \<open>n\<close>\<close>
  "candidates_upto n sheets =
     (\<forall>s \<in> set sheets. \<forall>d. snd s = Some d \<and> eligible d \<longrightarrow> score_sheet d \<le> n)"

subsection \<open>Example sheets\<close>

definition status_sheet :: DataFrame where
  "status_sheet =
     \<lparr>columns = [''ERF Sched Line Status'', ''Entered by''],
      rows = [[Text ''On order'', Text ''ZED''],
              [Text ''Received'', Text ''ABE''],
              [Text ''On order'', Text ''   ''],
              [Text ''Received'', NaN],
              [Text ''on order'', Text ''ZED''],
              [Text ''Received '', Text ''ABE''],
              [Text ''On order'', Text ''ZED'']]\<rparr>"

definition status_sheet_filtered :: DataFrame where
  "status_sheet_filtered =
     \<lparr>columns = [''ERF Sched Line Status'', ''Entered by''],
      rows = [[Text ''On order'', Text ''ZED''],
              [Text ''Received'', Text ''ABE''],
              [Text ''On order'', Text ''   ''],
              [Text ''Received'', NaN],
              [Text ''On order'', Text ''ZED'']]\<rparr>"

definition blank_first_row_sheet :: "nat \<Rightarrow> DataFrame" where
  \<comment> \<open>a sheet of \<open>n\<close> rows whose first row is blank\<close>
  "blank_first_row_sheet n =
     \<lparr>columns = [''ERF Sched Line Status'', ''Entered by''],
      rows = take n [[NaN, NaN], [Text ''On order'', Text ''ZED''],
                     [Text ''Received'', Text ''ABE'']]\<rparr>"

definition split_marker_sheet :: DataFrame where
  \<comment> \<open>\<open>count of\<close> is spread over two neighbouring cells\<close>
  "split_marker_sheet =
     \<lparr>columns = [''ERF Sched Line Status'', ''Entered by''],
      rows = [[Text ''Count'', Text ''of items''],
              [Text ''On order'', Text ''ZED''],
              [Text ''Received'', Text ''ABE'']]\<rparr>"

definition marker_sheet :: DataFrame where
  \<comment> \<open>one cell holds \<open>Grand Total\<close>\<close>
  "marker_sheet =
     \<lparr>columns = [''ERF Sched Line Status'', ''Entered by''],
      rows = [[Text ''On order'', Text ''ZED''],
              [Text ''Received'', Text ''ABE''],
              [Text ''Grand Total'', Text ''2'']]\<rparr>"

definition example_workbook :: workbook where
  "example_workbook =
     [(''Summary'', Some marker_sheet), (''Broken'', None),
      (''Main data'', Some status_sheet), (''Copy'', Some status_sheet)]"

section \<open>The mail service (\<^verbatim>\<open>src/email/email_service.py\<close>)\<close>

text \<open>
  Outlook is outside the program. Its address list is a list of entries, each with its
  display name and the SMTP address of its Exchange user, \<open>None\<close> when reading that
  address raises (the search then ends without a result, as the \<^verbatim>\<open>except\<close> clause
  makes it). \<open>outlook_accepts to subject\<close> tells whether creating and sending the mail item
  completes without raising. \<open>send_email_calls\<close> is a trace kept for the proofs: the
  recipient and subject of every call of \<^verbatim>\<open>send_email\<close>, the transport operation
  \<^verbatim>\<open>send(to, subject, body, ...) -> bool\<close>, in order.
\<close>

record ResolutionStats =
  mapped :: nat
  outlook_resolved :: nat
  fallback_used :: nat
  failed :: nat

record AddressEntry =
  Name :: string
  PrimarySmtpAddress :: "string option"

record OutlookEmailService =
  email_resolver :: EmailResolver
  is_connected :: bool
  address_book :: "AddressEntry list option"
  resolution_stats :: ResolutionStats
  SEARCH_OUTLOOK_CONTACTS :: bool
  outlook_accepts :: "string \<Rightarrow> string \<Rightarrow> bool"
  send_email_calls :: "(string \<times> string) list"

definition address_shaped :: "string \<Rightarrow> bool" where
  \<comment> \<open>\<^verbatim>\<open>'@' in name_or_email and '.' in name_or_email\<close>\<close>
  "address_shaped name_or_email =
     (CHR ''@'' \<in> set name_or_email \<and> CHR ''.'' \<in> set name_or_email)"

definition outlook_search :: "string \<Rightarrow> OutlookEmailService \<Rightarrow> string option" where
  \<comment> \<open>Step 2 of \<^verbatim>\<open>search_contact_email\<close>: the first entry whose name contains the
      identifier, case-insensitively\<close>
  "outlook_search name_or_email s =
     (if is_connected s \<and> SEARCH_OUTLOOK_CONTACTS s then
        (case address_book s of
           None \<Rightarrow> None
         | Some entries \<Rightarrow>
            (case find (\<lambda>entry. py_in (lower name_or_email) (lower (Name entry))) entries of
               None \<Rightarrow> None
             | Some entry \<Rightarrow> PrimarySmtpAddress entry))
      else None)"

definition search_contact_email ::
  "string \<Rightarrow> OutlookEmailService \<Rightarrow> string option \<times> OutlookEmailService" where
  "search_contact_email name_or_email s =
     (if name_or_email = [] then (None, s)
      else if address_shaped name_or_email then (Some name_or_email, s)
      else
        let (mapped_email, r) = resolve_email name_or_email (email_resolver s);
            s1 = s\<lparr>email_resolver := r\<rparr>;
            stats = resolution_stats s1
        in if mapped_email \<noteq> None \<and> mapped_email \<noteq> Some [] then
             (mapped_email, s1\<lparr>resolution_stats := stats\<lparr>mapped := mapped stats + 1\<rparr>\<rparr>)
           else
             (case outlook_search name_or_email s1 of
                Some email \<Rightarrow>
                  (Some email,
                   s1\<lparr>resolution_stats := stats\<lparr>outlook_resolved := outlook_resolved stats + 1\<rparr>\<rparr>)
              | None \<Rightarrow>
                  (None, s1\<lparr>resolution_stats := stats\<lparr>failed := failed stats + 1\<rparr>\<rparr>)))"

text \<open>
  \<^verbatim>\<open>send_email\<close> as \<^verbatim>\<open>send_bulk_emails\<close> calls it: the copy and attachment lists
  are empty, since no entry built by the orchestrator has a \<^verbatim>\<open>cc\<close> or
  \<^verbatim>\<open>attachments\<close> key.
\<close>

definition send_email ::
  "string \<Rightarrow> string \<Rightarrow> string \<Rightarrow> OutlookEmailService \<Rightarrow> bool \<times> OutlookEmailService" where
  "send_email to_address subject body s0 =
     (let s = s0\<lparr>send_email_calls := send_email_calls s0 @ [(to_address, subject)]\<rparr> in
      if \<not> is_connected s then (False, s)
      else
        let (resolved_email, s1) = search_contact_email to_address s in
        (case resolved_email of
           None \<Rightarrow> (False, s1)
         | Some address \<Rightarrow>
            (if address = [] then (False, s1)
             else (outlook_accepts s1 address subject, s1))))"

record email_message =
  to :: string
  subject :: string
  body :: string

record email_entry = email_message +
  resolved_email :: "string option"
  requester_name :: string
  item_count :: nat
  email_found :: bool

fun send_each ::
  "'a email_message_scheme list \<Rightarrow> nat \<times> nat \<Rightarrow> OutlookEmailService
     \<Rightarrow> (nat \<times> nat) \<times> OutlookEmailService" where
  \<comment> \<open>the loop of \<^verbatim>\<open>send_bulk_emails\<close>, carrying \<^verbatim>\<open>(successful, failed)\<close>\<close>
  "send_each [] counts s = (counts, s)"
| "send_each (email_info # rest) (successful, unsuccessful) s =
     (let (success, s') = send_email (to email_info) (subject email_info) (body email_info) s in
      if success then send_each rest (successful + 1, unsuccessful) s'
      else send_each rest (successful, unsuccessful + 1) s')"

definition send_bulk_emails ::
  "'a email_message_scheme list \<Rightarrow> OutlookEmailService \<Rightarrow> (nat \<times> nat) \<times> OutlookEmailService" where
  "send_bulk_emails email_data s =
     send_each email_data (0, 0)
       (s\<lparr>resolution_stats :=
            \<lparr>mapped = 0, outlook_resolved = 0, fallback_used = 0, failed = 0\<rparr>\<rparr>)"

section \<open>The orchestrator (\<^verbatim>\<open>src/services/automation_service.py\<close>)\<close>

text \<open>
  The template is an outside collaborator: a function from the requester and the
  requester's rows to a subject and a body. Console input is the list of lines the
  operator will type; reading past its end is \<^verbatim>\<open>EOFError\<close>, the result \<open>None\<close>.
\<close>

record ERFAutomationService =
  excel_processor :: ExcelProcessor
  email_service :: OutlookEmailService
  email_template :: "string \<Rightarrow> DataFrame \<Rightarrow> string \<times> string"

fun resolve_groups ::
  "(string \<Rightarrow> DataFrame \<Rightarrow> string \<times> string) \<Rightarrow> (string \<times> DataFrame) list
     \<Rightarrow> OutlookEmailService \<Rightarrow> email_entry list \<times> OutlookEmailService" where
  \<comment> \<open>the loop of \<^verbatim>\<open>generate_email_data_with_resolution\<close>\<close>
  "resolve_groups template [] s = ([], s)"
| "resolve_groups template ((requester, items_df) # rest) s =
     (let (resolved, s1) = search_contact_email requester s;
          email_content = template requester items_df;
          entry = \<lparr>to = requester, subject = fst email_content, body = snd email_content,
                   resolved_email = resolved, requester_name = requester,
                   item_count = length (rows items_df), email_found = (resolved \<noteq> None)\<rparr>;
          (entries, s2) = resolve_groups template rest s1
      in (entry # entries, s2))"

definition generate_email_data_with_resolution ::
  "ERFAutomationService \<Rightarrow> email_entry list \<times> ERFAutomationService" where
  "generate_email_data_with_resolution a =
     (let (email_data, s) =
            resolve_groups (email_template a) (get_grouped_data (excel_processor a))
              (email_service a)
      in (email_data, a\<lparr>email_service := s\<rparr>))"

datatype summary =
    Error string
  | Cancelled
  | Preview "email_entry list"
  | Live (live_unmapped: "string set")
  | Demo (test_addresses: "string list") (demo_requesters: "string list")
      (demo_unmapped: "string set")

definition send_emails ::
  "bool \<Rightarrow> string list \<Rightarrow> ERFAutomationService
     \<Rightarrow> ((nat \<times> nat \<times> summary) \<times> ERFAutomationService) option" where
  "send_emails test_mode inputs a =
     (let (email_data, a1) = generate_email_data_with_resolution a in
      if test_mode then Some ((length email_data, 0, Preview email_data), a1)
      else
        (case inputs of
           [] \<Rightarrow> None
         | final_confirm # _ \<Rightarrow>
            if final_confirm \<noteq> ''SEND LIVE'' then Some ((0, 0, Cancelled), a1)
            else
              let sendable_emails = filter email_found email_data;
                  ((successful, unsuccessful), s) =
                     send_bulk_emails sendable_emails (email_service a1)
              in Some ((successful, unsuccessful, Live (unmapped_users (email_resolver s))),
                       a1\<lparr>email_service := s\<rparr>)))"

fun read_test_emails :: "string list \<Rightarrow> string list \<Rightarrow> (string list \<times> string list) option" where
  \<comment> \<open>the loop \<^verbatim>\<open>while len(test_emails) < 3\<close>: the addresses collected and the
      input left\<close>
  "read_test_emails [] test_emails =
     (if length test_emails < 3 then None else Some (test_emails, []))"
| "read_test_emails (line # inputs) test_emails =
     (if length test_emails < 3 then
        (let email = strip line in
         if email = [] then
           (if 0 < length test_emails then Some (test_emails, inputs)
            else read_test_emails inputs test_emails)
         else if CHR ''@'' \<in> set email then read_test_emails inputs (test_emails @ [email])
         else read_test_emails inputs test_emails)
      else Some (test_emails, line # inputs))"

fun str_nat :: "nat \<Rightarrow> string" where
  \<comment> \<open>\<^verbatim>\<open>str(n)\<close> for a count\<close>
  "str_nat n =
     (if n < 10 then [''0123456789'' ! n]
      else str_nat (n div 10) @ [''0123456789'' ! (n mod 10)])"

declare str_nat.simps [simp del]

definition demo_subject :: "email_entry \<Rightarrow> string" where
  "demo_subject email_info =
     ''[DEMO] ERF Status for '' @ requester_name email_info @ '' - ''
       @ str_nat (item_count email_info) @ '' Items''"

definition demo_body :: "email_entry \<Rightarrow> string \<Rightarrow> string" where
  "demo_body email_info test_email =
     (let resolved = (case resolved_email email_info of
                        None \<Rightarrow> ''Email not found''
                      | Some e \<Rightarrow> (if e = [] then ''Email not found'' else e));
          nl = [CHR 0x0A]
      in ''THIS IS A DEMO EMAIL FOR MANAGER PRESENTATION'' @ nl
         @ replicate 60 (CHR ''='') @ nl
         @ nl
         @ ''Email Resolution Demo:'' @ nl
         @ ''Original Recipient: '' @ requester_name email_info @ nl
         @ ''Resolved Email: '' @ resolved @ nl
         @ ''Items: '' @ str_nat (item_count email_info) @ nl
         @ ''Demo sent to: '' @ test_email @ nl
         @ nl
         @ body email_info @ nl
         @ nl
         @ replicate 60 (CHR ''='') @ nl
         @ ''END OF DEMO EMAIL - Original would go to: '' @ resolved @ nl)"

definition demo_emails :: "email_entry list \<Rightarrow> string list \<Rightarrow> email_message list" where
  \<comment> \<open>\<^verbatim>\<open>demo_email_list\<close>: for each entry, one message to each test address\<close>
  "demo_emails demo_data test_emails =
     concat (map (\<lambda>email_info.
                    map (\<lambda>test_email.
                           \<lparr>to = test_email, subject = demo_subject email_info,
                            body = demo_body email_info test_email\<rparr>) test_emails)
               demo_data)"

definition manager_demo_mode ::
  "string list \<Rightarrow> ERFAutomationService
     \<Rightarrow> ((nat \<times> nat \<times> summary) \<times> ERFAutomationService) option" where
  "manager_demo_mode inputs a =
     (let (email_data, a1) = generate_email_data_with_resolution a in
      if email_data = [] then Some ((0, 0, Error ''No email data available''), a1)
      else
        let demo_data = take 5 email_data in
        (case read_test_emails inputs [] of
           None \<Rightarrow> None
         | Some (test_emails, inputs1) \<Rightarrow>
            if test_emails = [] then Some ((0, 0, Error ''No test emails''), a1)
            else
              (case inputs1 of
                 [] \<Rightarrow> None
               | answer # _ \<Rightarrow>
                  if \<not> startswith (lower answer) ''y'' then Some ((0, 0, Cancelled), a1)
                  else
                    let demo_email_list = demo_emails demo_data test_emails;
                        ((successful, unsuccessful), s) =
                           send_bulk_emails demo_email_list (email_service a1)
                    in Some ((successful, unsuccessful,
                              Demo test_emails (map requester_name demo_data)
                                (unmapped_users (email_resolver s))),
                             a1\<lparr>email_service := s\<rparr>))))"

text \<open>
  \<^verbatim>\<open>export_unmapped_users\<close> of the orchestrator: the rows it hands to the spreadsheet
  writer, one per member of \<^verbatim>\<open>unmapped_users\<close>, without their timestamps (the
  members of a Python set come in no particular order, so the rows are a set);
  \<open>None\<close> when there is no unmapped user and nothing is written.
\<close>

record unmapped_row =
  Username :: string
  Status :: string
  Mode :: string
  Recommended_Action :: string

definition export_unmapped_users :: "string \<Rightarrow> ERFAutomationService \<Rightarrow> unmapped_row set option" where
  "export_unmapped_users mode a =
     (let unmapped = unmapped_users (email_resolver (email_service a)) in
      if unmapped = {} then None
      else Some ((\<lambda>user. \<lparr>Username = user, Status = ''Email Not Found'', Mode = mode,
                            Recommended_Action = ''Add to email mapping file or verify username''\<rparr>)
                   ` unmapped))"

subsection \<open>An example run\<close>

definition example_mail_service :: OutlookEmailService where
  "example_mail_service =
     \<lparr>email_resolver =
        \<lparr>email_mapping = [(''ABE'', ''abe@example.com''), (''BEA'', ''bea@example.com''),
                          (''CAL'', ''cal@example.com''), (''DEE'', ''dee@example.com'')],
         unmapped_users = {}\<rparr>,
      is_connected = True,
      address_book = Some [\<lparr>Name = ''Zed, Zoe'', PrimarySmtpAddress = Some ''zoe.zed@example.com''\<rparr>],
      resolution_stats = \<lparr>mapped = 0, outlook_resolved = 0, fallback_used = 0, failed = 0\<rparr>,
      SEARCH_OUTLOOK_CONTACTS = True,
      outlook_accepts = (\<lambda>address subject. True),
      send_email_calls = []\<rparr>"

definition example_items :: "string \<Rightarrow> DataFrame" where
  "example_items requester =
     \<lparr>columns = [''ERF Sched Line Status'', ''Entered by''],
      rows = [[Text ''On order'', Text requester]]\<rparr>"

definition example_service :: ERFAutomationService where
  "example_service =
     \<lparr>excel_processor =
        \<lparr>raw_data = None, filtered_data = None,
         grouped_data = Some (map (\<lambda>requester. (requester, example_items requester))
                                [''ABE'', ''BEA'', ''CAL'', ''DEE'', ''QUX'', ''ZED'']),
         selected_sheet = None\<rparr>,
      email_service = example_mail_service,
      email_template = (\<lambda>requester items_df. (''ERF Status Update'', ''Hello '' @ requester))\<rparr>"

section \<open>Facts about strings\<close>

lemma startswith_iff: "startswith s p \<longleftrightarrow> (\<exists>t. s = p @ t)"
  by (induction s p rule: startswith.induct) auto

lemma py_in_iff: "py_in needle hay \<longleftrightarrow> (\<exists>pre post. hay = pre @ needle @ post)"
proof (induction hay)
  case Nil
  then show ?case by auto
next
  case (Cons h hay)
  show ?case
  proof
    assume "py_in needle (h # hay)"
    then consider "startswith (h # hay) needle" | "py_in needle hay" by auto
    then show "\<exists>pre post. h # hay = pre @ needle @ post"
    proof cases
      case 1
      then obtain t where "h # hay = needle @ t" by (auto simp: startswith_iff)
      then have "h # hay = [] @ needle @ t" by simp
      then show ?thesis by blast
    next
      case 2
      with Cons obtain pre post where "hay = pre @ needle @ post" by blast
      then have "h # hay = (h # pre) @ needle @ post" by simp
      then show ?thesis by blast
    qed
  next
    assume "\<exists>pre post. h # hay = pre @ needle @ post"
    then obtain pre post where eq: "h # hay = pre @ needle @ post" by blast
    show "py_in needle (h # hay)"
    proof (cases pre)
      case Nil
      with eq have "\<exists>t. h # hay = needle @ t" by auto
      then have "startswith (h # hay) needle" by (simp only: startswith_iff)
      then show ?thesis by simp
    next
      case (Cons a pre')
      with eq have "hay = pre' @ needle @ post" by simp
      with Cons.IH show ?thesis by auto
    qed
  qed
qed

lemma latin1_examples:
  "strip [CHR 0xA0, CHR ''a'', CHR 0x85] = ''a''"
  "upper [CHR 0xE9, CHR 0xDF] = [CHR 0xC9, CHR ''S'', CHR ''S'']"
  "lower [CHR 0xC9, CHR ''Q''] = [CHR 0xE9, CHR ''q'']"
  by (simp_all add: strip_def is_space_def upper_def upper_char_def lower_def lower_char_def)

section \<open>Properties of the dictionary resolver\<close>

lemma map_of_update_same: "map_of (AList.update k v al) k = Some v"
  by (simp add: update_conv')

text \<open>
  C6 (as amended). For every non-empty identifier and every mapping: when the
  normalized (trimmed, uppercased) identifier is a key of the mapping,
  \<^const>\<open>resolve_email\<close> returns that key's address and leaves the resolver unchanged,
  whatever other keys would match by substring. For the empty identifier, whatever the
  mapping, \<^const>\<open>resolve_email\<close> returns \<^verbatim>\<open>None\<close> and leaves the resolver
  unchanged: the guard \<^verbatim>\<open>if not username\<close> comes before any lookup.
\<close>

theorem resolve_email_exact_wins:
  "resolve_email [] r = (None, r)
   \<and> (username \<noteq> [] \<and> map_of (email_mapping r) (upper (strip username)) = Some email
        \<longrightarrow> resolve_email username r = (Some email, r))"
  by (simp add: resolve_email_def)

theorem resolve_email_exact_wins_witness:
  "resolve_email ''jdoe''
     \<lparr>email_mapping = [(''JDOE2'', ''other@example.com''), (''JDOE'', ''j.doe@example.com'')],
      unmapped_users = {}\<rparr>
   = (Some ''j.doe@example.com'',
      \<lparr>email_mapping = [(''JDOE2'', ''other@example.com''), (''JDOE'', ''j.doe@example.com'')],
       unmapped_users = {}\<rparr>)
   \<and> partial_match (upper (strip ''jdoe'')) (''JDOE2'', ''other@example.com'')
   \<and> resolve_email ''''
         \<lparr>email_mapping = [(''JDOE2'', ''other@example.com''), (''JDOE'', ''j.doe@example.com'')],
          unmapped_users = {}\<rparr>
       = (None,
          \<lparr>email_mapping = [(''JDOE2'', ''other@example.com''), (''JDOE'', ''j.doe@example.com'')],
           unmapped_users = {}\<rparr>)"
proof -
  have n: "upper (strip ''jdoe'') = ''JDOE''"
    by (simp add: upper_def strip_def upper_char_def is_space_def)
  have h1: "''jdoe'' \<noteq> []" by simp
  have h2: "map_of (email_mapping
              \<lparr>email_mapping = [(''JDOE2'', ''other@example.com''), (''JDOE'', ''j.doe@example.com'')],
               unmapped_users = {}\<rparr>) (upper (strip ''jdoe'')) = Some ''j.doe@example.com''"
    by (simp add: n)
  have h3: "partial_match (upper (strip ''jdoe'')) (''JDOE2'', ''other@example.com'')"
    by (simp add: n partial_match_def)
  from resolve_email_exact_wins
         [of "\<lparr>email_mapping = [(''JDOE2'', ''other@example.com''), (''JDOE'', ''j.doe@example.com'')],
               unmapped_users = {}\<rparr>" "''jdoe''" "''j.doe@example.com''"] h1 h2 h3
  show ?thesis by simp
qed

text \<open>
  C6 as stated (every identifier) fails at the empty identifier: a mapping can hold the
  empty key (adding a manual mapping for a blank, non-empty identifier stores it), the
  normalized empty identifier is that key, and \<^const>\<open>resolve_email\<close> returns
  \<^verbatim>\<open>None\<close>.
\<close>

theorem resolve_email_exact_counterexample:
  "map_of (email_mapping \<lparr>email_mapping = [('''', ''x@example.com'')], unmapped_users = {}\<rparr>)
       (upper (strip '''')) = Some ''x@example.com''
   \<and> fst (resolve_email '''' \<lparr>email_mapping = [('''', ''x@example.com'')], unmapped_users = {}\<rparr>)
       = None"
  by (simp add: resolve_email_def upper_def strip_def)

text \<open>
  C8 (as amended). \<^const>\<open>add_manual_mapping\<close> is idempotent for all arguments. For
  every non-empty identifier and every address containing \<open>@\<close>, adding the mapping and
  then resolving the same identifier returns the whitespace-trimmed address (the code
  stores \<^verbatim>\<open>email.strip()\<close>), and the identifier is not in \<^verbatim>\<open>unmapped_users\<close>
  afterwards.
\<close>

theorem add_manual_mapping_then_resolve:
  "add_manual_mapping username email (add_manual_mapping username email r)
     = add_manual_mapping username email r
   \<and> (username \<noteq> [] \<and> CHR ''@'' \<in> set email \<longrightarrow>
        fst (resolve_email username (add_manual_mapping username email r)) = Some (strip email)
        \<and> username \<notin> unmapped_users (snd (resolve_email username (add_manual_mapping username email r))))"
proof (intro conjI impI)
  show "add_manual_mapping username email (add_manual_mapping username email r)
          = add_manual_mapping username email r"
    by (simp add: add_manual_mapping_def)
next
  assume h: "username \<noteq> [] \<and> CHR ''@'' \<in> set email"
  then have ne: "email \<noteq> []" by auto
  let ?r1 = "add_manual_mapping username email r"
  have m: "map_of (email_mapping ?r1) (upper (strip username)) = Some (strip email)"
    using h ne by (simp add: add_manual_mapping_def map_of_update_same)
  have res: "resolve_email username ?r1 = (Some (strip email), ?r1)"
    using h m by (simp add: resolve_email_def)
  show "fst (resolve_email username ?r1) = Some (strip email)"
    by (simp add: res)
  show "username \<notin> unmapped_users (snd (resolve_email username ?r1))"
    using h ne by (simp add: res) (simp add: add_manual_mapping_def)
qed

theorem add_manual_mapping_then_resolve_witness:
  "fst (resolve_email ''jdoe''
          (add_manual_mapping ''jdoe'' '' j.doe@example.com''
             \<lparr>email_mapping = [], unmapped_users = {''jdoe''}\<rparr>)) = Some ''j.doe@example.com''
   \<and> ''jdoe'' \<notin> unmapped_users (snd (resolve_email ''jdoe''
          (add_manual_mapping ''jdoe'' '' j.doe@example.com''
             \<lparr>email_mapping = [], unmapped_users = {''jdoe''}\<rparr>)))"
proof -
  have h: "''jdoe'' \<noteq> [] \<and> CHR ''@'' \<in> set '' j.doe@example.com''" by simp
  have s: "strip '' j.doe@example.com'' = ''j.doe@example.com''"
    by (simp add: strip_def is_space_def)
  from add_manual_mapping_then_resolve
         [of "''jdoe''" "'' j.doe@example.com''"
             "\<lparr>email_mapping = [], unmapped_users = {''jdoe''}\<rparr>"] h s
  show ?thesis by simp
qed

text \<open>
  C8 as stated fails in two places: an address with surrounding whitespace is stored
  and returned trimmed, not as given; and for the empty identifier nothing is stored and
  nothing is returned.
\<close>

theorem add_manual_mapping_then_resolve_counterexample:
  "CHR ''@'' \<in> set '' j.doe@example.com''
   \<and> fst (resolve_email ''jdoe''
          (add_manual_mapping ''jdoe'' '' j.doe@example.com''
             \<lparr>email_mapping = [], unmapped_users = {}\<rparr>)) \<noteq> Some '' j.doe@example.com''
   \<and> fst (resolve_email ''''
          (add_manual_mapping '''' ''j.doe@example.com''
             \<lparr>email_mapping = [], unmapped_users = {}\<rparr>)) \<noteq> Some ''j.doe@example.com''"
  by (simp add: resolve_email_def add_manual_mapping_def upper_def strip_def
        upper_char_def is_space_def)

section \<open>Properties of the filter, the grouper and the pivot test\<close>

lemma cell_at_rows_update [simp]: "cell_at (df\<lparr>rows := rs\<rparr>) col row = cell_at df col row"
  by (simp add: cell_at_def)

lemma isin_iff: "isin c vs \<longleftrightarrow> (\<exists>s \<in> set vs. c = Text s)"
  by (cases c) (auto simp: isin_def)

text \<open>
  C9. With a loaded sheet that has the status column, \<^const>\<open>filter_data\<close> keeps
  exactly the rows whose status cell is, character for character, one of
  \<^const>\<open>TARGET_STATUSES\<close>, in their order; it reports whether any row was kept; and
  filtering the filtered frame again gives the same frame.
\<close>
theorem filter_data_exact_idempotent:
  assumes "raw_data p = Some raw"
    and "''ERF Sched Line Status'' \<in> set (columns raw)"
  shows "\<exists>filtered.
           filtered_data (snd (filter_data p)) = Some filtered
         \<and> columns filtered = columns raw
         \<and> rows filtered =
             filter (\<lambda>row. \<exists>s \<in> set TARGET_STATUSES.
                              cell_at raw ''ERF Sched Line Status'' row = Text s) (rows raw)
         \<and> fst (filter_data p) = (rows filtered \<noteq> [])
         \<and> filtered_data (snd (filter_data ((snd (filter_data p))\<lparr>raw_data := Some filtered\<rparr>)))
             = Some filtered"
  using assms by (simp add: filter_data_def Let_def isin_iff)

theorem filter_data_exact_idempotent_witness:
  "\<exists>filtered.
     filtered_data (snd (filter_data
        \<lparr>raw_data = Some status_sheet, filtered_data = None, grouped_data = None,
         selected_sheet = None\<rparr>)) = Some filtered
   \<and> rows filtered = rows status_sheet_filtered
   \<and> filtered_data (snd (filter_data ((snd (filter_data
        \<lparr>raw_data = Some status_sheet, filtered_data = None, grouped_data = None,
         selected_sheet = None\<rparr>))\<lparr>raw_data := Some filtered\<rparr>))) = Some filtered"
proof -
  let ?p = "\<lparr>raw_data = Some status_sheet, filtered_data = None, grouped_data = None,
             selected_sheet = None\<rparr>"
  have h1: "raw_data ?p = Some status_sheet" by simp
  have h2: "''ERF Sched Line Status'' \<in> set (columns status_sheet)"
    by (simp add: status_sheet_def)
  have e: "filter (\<lambda>row. \<exists>s \<in> set TARGET_STATUSES.
                      cell_at status_sheet ''ERF Sched Line Status'' row = Text s)
             (rows status_sheet) = rows status_sheet_filtered"
    by (simp add: status_sheet_def status_sheet_filtered_def TARGET_STATUSES_def cell_at_def)
  from filter_data_exact_idempotent [OF h1 h2] e show ?thesis by auto
qed

lemma keys_clean_gen:
  "concat (map (\<lambda>row. case f row of NaN \<Rightarrow> [] | Text s \<Rightarrow> [s])
     (filter (\<lambda>row. f row \<noteq> NaN \<and> strip (str_cell (f row)) \<noteq> []) rs))
   = concat (map (\<lambda>row. case f row of NaN \<Rightarrow> []
                         | Text s \<Rightarrow> (if strip s = [] then [] else [s])) rs)"
  by (induction rs) (auto simp: str_cell_def split: cell.splits)

text \<open>
  C2 (as amended). When grouping succeeds, the group keys are the distinct
  \<^verbatim>\<open>Entered by\<close> values of the rows whose key is neither absent, empty nor
  whitespace-only, and the groups come in strictly ascending order of the key: the order
  pandas' \<^verbatim>\<open>groupby\<close> gives them, not the order of first occurrence.
\<close>
theorem group_by_requester_order:
  assumes "filtered_data p = Some fd"
    and "''Entered by'' \<in> set (columns fd)"
    and "fst (group_by_requester p)"
  shows "sorted_wrt (<) (map fst (get_grouped_data (snd (group_by_requester p))))
       \<and> set (map fst (get_grouped_data (snd (group_by_requester p)))) = set (requester_keys fd)"
proof -
  let ?dropped = "fd\<lparr>rows := filter (\<lambda>row. cell_at fd ''Entered by'' row \<noteq> NaN) (rows fd)\<rparr>"
  let ?clean = "?dropped\<lparr>rows := filter (\<lambda>row. strip (str_cell (cell_at ?dropped ''Entered by'' row)) \<noteq> [])
                                     (rows ?dropped)\<rparr>"
  have ne: "rows ?clean \<noteq> []"
    using assms by (auto simp: group_by_requester_def Let_def split: if_splits)
  then have g: "get_grouped_data (snd (group_by_requester p)) = groupby ''Entered by'' ?clean"
    using assms by (simp add: group_by_requester_def get_grouped_data_def Let_def)
  have k: "map fst (groupby ''Entered by'' ?clean) = sort (remdups (requester_keys fd))"
    by (simp add: groupby_def comp_def keys_clean_gen requester_keys_def)
  show ?thesis
    unfolding g k by (simp add: strict_sorted_iff)
qed

theorem group_by_requester_order_witness:
  "map fst (get_grouped_data (snd (group_by_requester
      \<lparr>raw_data = None, filtered_data = Some status_sheet_filtered, grouped_data = None,
       selected_sheet = None\<rparr>))) = [''ABE'', ''ZED'']"
proof -
  let ?p = "\<lparr>raw_data = None, filtered_data = Some status_sheet_filtered, grouped_data = None,
             selected_sheet = None\<rparr>"
  let ?ks = "map fst (get_grouped_data (snd (group_by_requester ?p)))"
  have h1: "filtered_data ?p = Some status_sheet_filtered" by simp
  have h2: "''Entered by'' \<in> set (columns status_sheet_filtered)"
    by (simp add: status_sheet_filtered_def)
  have h3: "fst (group_by_requester ?p)"
    by (simp add: group_by_requester_def status_sheet_filtered_def cell_at_def str_cell_def
          strip_def is_space_def Let_def)
  have k: "set (requester_keys status_sheet_filtered) = {''ABE'', ''ZED''}"
    by (auto simp: requester_keys_def status_sheet_filtered_def cell_at_def strip_def is_space_def)
  from group_by_requester_order [OF h1 h2 h3]
  have s: "sorted_wrt (<) ?ks" and m: "set ?ks = {''ABE'', ''ZED''}"
    by (simp_all add: k)
  have "sorted_wrt (<) [''ABE'', ''ZED'']" by simp
  moreover have "set [''ABE'', ''ZED''] = set ?ks" using m by auto
  ultimately show ?thesis using s by (metis strict_sorted_equal)
qed

text \<open>
  C2 as stated fails: with the keys \<open>ZED, ABE, ZED\<close> in row order the groups are
  \<open>ABE, ZED\<close>, while the order of first occurrence is \<open>ZED, ABE\<close>.
\<close>
theorem group_by_requester_order_counterexample:
  "map fst (get_grouped_data (snd (group_by_requester
      \<lparr>raw_data = None, filtered_data = Some status_sheet_filtered, grouped_data = None,
       selected_sheet = None\<rparr>))) = [''ABE'', ''ZED'']
   \<and> first_occurrence_order (requester_keys status_sheet_filtered) = [''ZED'', ''ABE'']"
  by (simp add: group_by_requester_def get_grouped_data_def groupby_def first_occurrence_order_def
        requester_keys_def status_sheet_filtered_def cell_at_def str_cell_def strip_def
        is_space_def Let_def)

lemma bit_length_bounds: "0 < n \<Longrightarrow> 2 ^ (bit_length n - 1) \<le> n \<and> n < 2 ^ bit_length n"
proof (induction n rule: bit_length.induct)
  case (1 n)
  show ?case
  proof (cases "n div 2 = 0")
    case True
    with 1 have "n = 1" by (cases n) auto
    then show ?thesis by (simp add: bit_length.simps)
  next
    case False
    with 1 have ih: "2 ^ (bit_length (n div 2) - 1) \<le> n div 2 \<and> n div 2 < 2 ^ bit_length (n div 2)"
      by simp
    have pos: "0 < bit_length (n div 2)" using False by (subst bit_length.simps) simp
    have bl: "bit_length n = Suc (bit_length (n div 2))" using 1(2) by (subst bit_length.simps) simp
    from pos obtain k where k: "bit_length (n div 2) = Suc k" by (cases "bit_length (n div 2)") auto
    from ih show ?thesis unfolding bl k by (auto simp: )
  qed
qed

lemma round53_le: "2 ^ 53 * round53 x \<le> (2 ^ 53 + 1) * x"
proof (cases "bit_length x \<le> 53")
  case True
  then show ?thesis by (simp add: round53_def)
next
  case False
  define s where "s = bit_length x - 53"
  define q where "q = x div 2 ^ s"
  define r where "r = x mod 2 ^ s"
  define h :: nat where "h = 2 ^ (s - 1)"
  have s1: "1 \<le> s" using False by (simp add: s_def)
  have xpos: "0 < x" using False by (cases "x = 0") (auto simp: bit_length.simps)
  have x: "x = q * 2 ^ s + r" unfolding q_def r_def by (rule div_mult_mod_eq [symmetric])
  have hh: "2 ^ s = 2 * h" using s1 by (cases s) (auto simp: h_def)
  have up: "round53 x \<le> x + h"
  proof -
    have "round53 x = (if h < r \<or> (r = h \<and> odd q) then q + 1 else q) * 2 ^ s"
      using False by (simp add: round53_def Let_def s_def q_def r_def h_def)
    then show ?thesis using x hh by (auto simp: algebra_simps)
  qed
  have e: "53 + (s - 1) = bit_length x - 1" using False by (simp add: s_def)
  have "2 ^ 53 * h = (2::nat) ^ (53 + (s - 1))" unfolding h_def by (simp only: power_add)
  also have "\<dots> = 2 ^ (bit_length x - 1)" by (simp only: e)
  also have "\<dots> \<le> x" using bit_length_bounds [OF xpos] by simp
  finally have hx: "2 ^ 53 * h \<le> x" .
  define P :: nat where "P = 2 ^ 53"
  have "P * round53 x \<le> P * (x + h)" using up by (rule mult_le_mono2)
  also have "\<dots> = P * x + P * h" by (rule add_mult_distrib2)
  also have "\<dots> \<le> P * x + x" using hx by (simp add: P_def)
  also have "\<dots> = (P + 1) * x" by (simp add: algebra_simps)
  finally show ?thesis by (simp only: P_def)
qed

lemma gt_times_self_0_8: "0 < n \<Longrightarrow> gt_times n n float_0_8"
proof -
  assume n: "0 < n"
  define P :: nat where "P = 2 ^ 53"
  define a where "a = round53 n"
  define b where "b = round53 (a * float_0_8)"
  have a: "P * a \<le> (P + 1) * n" unfolding a_def P_def by (rule round53_le)
  have b: "P * b \<le> (P + 1) * (a * float_0_8)" unfolding b_def P_def by (rule round53_le)
  have num: "(P + 1) * float_0_8 * (P + 1) < P * (P * P)"
    by (simp add: P_def float_0_8_def)
  have "P * (P * b) \<le> P * ((P + 1) * (a * float_0_8))"
    using b by (rule mult_le_mono2)
  also have "\<dots> = (P + 1) * float_0_8 * (P * a)" by (simp only: ac_simps)
  also have "\<dots> \<le> (P + 1) * float_0_8 * ((P + 1) * n)"
    using a by (rule mult_le_mono2)
  also have "\<dots> = ((P + 1) * float_0_8 * (P + 1)) * n" by (simp only: ac_simps)
  also have "\<dots> < (P * (P * P)) * n"
    using n num by (rule_tac mult_less_mono1) 
  also have "\<dots> = P * (P * (n * P))" by (simp only: ac_simps)
  finally have "P * (P * b) < P * (P * (n * P))" .
  then have "b < n * P" by (simp only: nat_mult_less_cancel_disj)
  then show ?thesis by (simp only: gt_times_def a_def b_def P_def)
qed

lemma blank_first_row_pivot:
  assumes "3 \<le> length (rows df)"
    and "columns df \<noteq> []"
    and "length (hd (rows df)) = length (columns df)"
    and "\<forall>c \<in> set (hd (rows df)). c = NaN"
  shows "is_real_pivot_table df"
proof -
  have "filter (\<lambda>c. c = NaN) (hd (rows df)) = hd (rows df)"
    using assms(4) by (simp add: filter_id_conv)
  then have "length (filter (\<lambda>c. c = NaN) (hd (rows df))) = length (columns df)"
    using assms(3) by simp
  moreover have "0 < length (columns df)" using assms(2) by simp
  ultimately have "gt_times (length (filter (\<lambda>c. c = NaN) (hd (rows df))))
                     (length (columns df)) float_0_8"
    by (simp add: gt_times_self_0_8)
  with assms(1) show ?thesis by (simp add: is_real_pivot_table_def)
qed

text \<open>
  C4 (as amended). A sheet with at least three rows and at least one column whose first
  row is entirely blank is classified as a pivot table; a sheet with fewer than three
  rows is never classified as a pivot table, whatever its cells.
\<close>
theorem empty_first_row_is_pivot:
  "(length (rows df) < 3 \<longrightarrow> \<not> is_real_pivot_table df)
   \<and> (3 \<le> length (rows df) \<and> columns df \<noteq> []
        \<and> length (hd (rows df)) = length (columns df)
        \<and> (\<forall>c \<in> set (hd (rows df)). c = NaN)
        \<longrightarrow> is_real_pivot_table df)"
proof (intro conjI impI)
  assume "length (rows df) < 3"
  then show "\<not> is_real_pivot_table df" by (simp add: is_real_pivot_table_def)
next
  assume "3 \<le> length (rows df) \<and> columns df \<noteq> []
        \<and> length (hd (rows df)) = length (columns df)
        \<and> (\<forall>c \<in> set (hd (rows df)). c = NaN)"
  then show "is_real_pivot_table df" by (simp add: blank_first_row_pivot)
qed

theorem empty_first_row_is_pivot_witness:
  "is_real_pivot_table (blank_first_row_sheet 3)
   \<and> \<not> is_real_pivot_table (blank_first_row_sheet 1)"
proof -
  have h0: "length (rows (blank_first_row_sheet 1)) < 3"
    by (simp add: blank_first_row_sheet_def)
  have h1: "3 \<le> length (rows (blank_first_row_sheet 3))"
    by (simp add: blank_first_row_sheet_def)
  have h2: "columns (blank_first_row_sheet 3) \<noteq> []"
    by (simp add: blank_first_row_sheet_def)
  have h3: "length (hd (rows (blank_first_row_sheet 3))) = length (columns (blank_first_row_sheet 3))"
    by (simp add: blank_first_row_sheet_def)
  have h4: "\<forall>c \<in> set (hd (rows (blank_first_row_sheet 3))). c = NaN"
    by (simp add: blank_first_row_sheet_def)
  from empty_first_row_is_pivot [of "blank_first_row_sheet 3"]
       empty_first_row_is_pivot [of "blank_first_row_sheet 1"] h0 h1 h2 h3 h4
  show ?thesis by blast
qed

text \<open>
  C4 as stated (whatever the number of rows) fails: a sheet of fewer than three rows is
  never classified as a pivot table, here one of two rows whose first row is blank.
\<close>
theorem empty_first_row_counterexample:
  "columns (blank_first_row_sheet 2) \<noteq> []
   \<and> hd (rows (blank_first_row_sheet 2)) = [NaN, NaN]
   \<and> \<not> is_real_pivot_table (blank_first_row_sheet 2)"
  by (simp add: blank_first_row_sheet_def is_real_pivot_table_def)

lemma join_space_member:
  "x \<in> set xs \<Longrightarrow> \<exists>pre post. join_space xs = pre @ x @ post"
proof (induction xs rule: join_space.induct)
  case 1
  then show ?case by simp
next
  case (2 y)
  then have "join_space [y] = [] @ x @ []" by simp
  then show ?case by blast
next
  case (3 y z zs)
  show ?case
  proof (cases "x = y")
    case True
    then have "join_space (y # z # zs) = [] @ x @ ('' '' @ join_space (z # zs))" by simp
    then show ?thesis by blast
  next
    case False
    with 3 obtain pre post where "join_space (z # zs) = pre @ x @ post" by auto
    then have "join_space (y # z # zs) = (y @ '' '' @ pre) @ x @ post" by simp
    then show ?thesis by blast
  qed
qed

lemma py_in_join_space:
  assumes "x \<in> set xs" and "py_in needle x"
  shows "py_in needle (join_space xs)"
proof -
  from assms(1) obtain pre post where j: "join_space xs = pre @ x @ post"
    using join_space_member by blast
  from assms(2) obtain a b where "x = a @ needle @ b" by (auto simp: py_in_iff)
  with j have "join_space xs = (pre @ a) @ needle @ (b @ post)" by simp
  then show ?thesis unfolding py_in_iff by blast
qed

lemma join_space_Cons: "\<exists>Q. join_space (y # bs) = y @ Q"
  by (cases bs) auto

lemma join_space_consecutive:
  "\<exists>P Q. join_space (as @ x # y # bs) = P @ x @ '' '' @ y @ Q"
proof (induction as)
  case Nil
  obtain Q where "join_space (y # bs) = y @ Q" using join_space_Cons by blast
  then have "join_space ([] @ x # y # bs) = [] @ x @ '' '' @ y @ Q" by simp
  then show ?case by blast
next
  case (Cons a as)
  then obtain P Q where ih: "join_space (as @ x # y # bs) = P @ x @ '' '' @ y @ Q" by blast
  obtain z zs where z: "as @ x # y # bs = z # zs" by (cases "as @ x # y # bs") auto
  have "join_space ((a # as) @ x # y # bs) = a @ '' '' @ join_space (as @ x # y # bs)"
    by (simp add: z)
  with ih have "join_space ((a # as) @ x # y # bs) = (a @ '' '' @ P) @ x @ '' '' @ y @ Q"
    by simp
  then show ?case by blast
qed

lemma py_in_join_space_split:
  "py_in (u @ '' '' @ v) (join_space (as @ (x @ u) # (v @ y) # bs))"
proof -
  obtain P Q where "join_space (as @ (x @ u) # (v @ y) # bs) = P @ (x @ u) @ '' '' @ (v @ y) @ Q"
    using join_space_consecutive by blast
  then have "join_space (as @ (x @ u) # (v @ y) # bs) = (P @ x) @ (u @ '' '' @ v) @ (y @ Q)"
    by simp
  then show ?thesis unfolding py_in_iff by blast
qed

text \<open>
  C5 (as amended). The marker test holds exactly when one of the indicator phrases occurs
  in the text made of the lowercased texts of the cells of the first 5 by 5 window,
  joined row by row with single spaces. A single cell that contains a phrase,
  case-insensitively, is therefore enough, and so are two consecutive cells of the window
  of which the first ends with the part of a phrase before one of its spaces and the
  next begins with the part after it. A sheet of at least three rows is classified as a
  pivot table exactly when the unnamed-columns test, the blank-first-row test or the
  marker test holds.
\<close>
theorem pivot_indicator_joined_text:
  "(pivot_indicator_found df \<longleftrightarrow>
      (\<exists>indicator \<in> set pivot_indicators.
         \<exists>pre post. join_space (first_few_cells df) = pre @ indicator @ post))
   \<and> (single_cell_marker df \<longrightarrow> pivot_indicator_found df)
   \<and> ((\<exists>as x u v y bs. first_few_cells df = as @ (x @ u) # (v @ y) # bs
                        \<and> u @ '' '' @ v \<in> set pivot_indicators)
        \<longrightarrow> pivot_indicator_found df)
   \<and> (3 \<le> length (rows df) \<longrightarrow>
        (is_real_pivot_table df \<longleftrightarrow>
           gt_times (length (filter (py_in ''Unnamed:'') (columns df)))
             (length (columns df)) float_0_7
         \<or> gt_times (length (filter (\<lambda>c. c = NaN) (hd (rows df))))
             (length (columns df)) float_0_8
         \<or> pivot_indicator_found df))"
proof (intro conjI impI)
  show "pivot_indicator_found df \<longleftrightarrow>
      (\<exists>indicator \<in> set pivot_indicators.
         \<exists>pre post. join_space (first_few_cells df) = pre @ indicator @ post)"
    by (simp add: pivot_indicator_found_def list_ex_iff py_in_iff)
next
  assume "single_cell_marker df"
  then obtain cell_value indicator where
    "cell_value \<in> set (first_few_cells df)" "indicator \<in> set pivot_indicators"
    "py_in indicator cell_value"
    by (auto simp: single_cell_marker_def list_ex_iff)
  then show "pivot_indicator_found df"
    unfolding pivot_indicator_found_def list_ex_iff using py_in_join_space by blast
next
  assume "\<exists>as x u v y bs. first_few_cells df = as @ (x @ u) # (v @ y) # bs
                        \<and> u @ '' '' @ v \<in> set pivot_indicators"
  then obtain as x u v y bs where
    c: "first_few_cells df = as @ (x @ u) # (v @ y) # bs"
    and i: "u @ '' '' @ v \<in> set pivot_indicators"
    by blast
  have "py_in (u @ '' '' @ v) (join_space (first_few_cells df))"
    unfolding c by (rule py_in_join_space_split)
  with i show "pivot_indicator_found df"
    unfolding pivot_indicator_found_def list_ex_iff by blast
next
  assume "3 \<le> length (rows df)"
  then show "is_real_pivot_table df \<longleftrightarrow>
           gt_times (length (filter (py_in ''Unnamed:'') (columns df)))
             (length (columns df)) float_0_7
         \<or> gt_times (length (filter (\<lambda>c. c = NaN) (hd (rows df))))
             (length (columns df)) float_0_8
         \<or> pivot_indicator_found df"
    by (simp add: is_real_pivot_table_def)
qed

theorem pivot_indicator_joined_text_witness:
  "single_cell_marker marker_sheet \<and> pivot_indicator_found marker_sheet
   \<and> is_real_pivot_table marker_sheet
   \<and> pivot_indicator_found split_marker_sheet"
proof -
  have h: "single_cell_marker marker_sheet"
    by (simp add: single_cell_marker_def marker_sheet_def first_few_cells_def pivot_indicators_def
          str_cell_def lower_def lower_char_def)
  have l: "3 \<le> length (rows marker_sheet)" by (simp add: marker_sheet_def)
  have "first_few_cells split_marker_sheet
          = [] @ ([] @ ''count'') # (''of'' @ '' items'')
               # [''on order'', ''zed'', ''received'', ''abe'']
        \<and> ''count'' @ '' '' @ ''of'' \<in> set pivot_indicators"
    by (simp add: split_marker_sheet_def first_few_cells_def str_cell_def lower_def
          lower_char_def pivot_indicators_def)
  then have s: "\<exists>as x u v y bs. first_few_cells split_marker_sheet = as @ (x @ u) # (v @ y) # bs
                        \<and> u @ '' '' @ v \<in> set pivot_indicators"
    by (intro exI)
  from pivot_indicator_joined_text [of marker_sheet]
       pivot_indicator_joined_text [of split_marker_sheet] h l s
  show ?thesis by blast
qed

text \<open>
  C5 as stated fails: \<open>Count\<close> and \<open>of items\<close> in neighbouring cells join to a
  text containing \<open>count of\<close>; the sheet is classified as a pivot table although no
  single cell holds an indicator.
\<close>
theorem single_cell_marker_counterexample:
  "is_real_pivot_table split_marker_sheet \<and> pivot_indicator_found split_marker_sheet
   \<and> \<not> single_cell_marker split_marker_sheet"
proof -
  have c: "first_few_cells split_marker_sheet
             = [''count'', ''of items'', ''on order'', ''zed'', ''received'', ''abe'']"
    by (simp add: split_marker_sheet_def first_few_cells_def str_cell_def lower_def lower_char_def)
  have f: "pivot_indicator_found split_marker_sheet"
    by (simp add: pivot_indicator_found_def c pivot_indicators_def)
  have n: "\<not> single_cell_marker split_marker_sheet"
    by (simp add: single_cell_marker_def c pivot_indicators_def)
  have "3 \<le> length (rows split_marker_sheet)" by (simp add: split_marker_sheet_def)
  with f have "is_real_pivot_table split_marker_sheet" by (simp add: is_real_pivot_table_def)
  with f n show ?thesis by simp
qed

lemma bit_length_numeral: "bit_length (numeral n) = Suc (bit_length (numeral n div 2))"
  by (subst bit_length.simps) simp

lemma bit_length_0: "bit_length 0 = 0"
  by (simp add: bit_length.simps)

lemma bit_length_1: "bit_length 1 = 1" "bit_length (Suc 0) = 1"
  by (simp_all add: bit_length.simps)

lemma gt_times_63_of_90: "gt_times 63 90 float_0_7 \<and> \<not> gt_times 63 91 float_0_7"
  by (simp add: gt_times_def round53_def float_0_7_def bit_length_numeral bit_length_0
        bit_length_1 Let_def)

section \<open>Properties of the sheet selector\<close>

lemma strip_Entered_by: "strip ''Entered by'' = ''Entered by''"
  by (simp add: strip_def is_space_def)

lemma score_sheet_pos:
  assumes "has_critical_columns df"
  shows "0 < score_sheet df"
proof -
  have "''Entered by'' \<in> set (columns df)"
    using assms by (simp add: has_critical_columns_def)
  then have "strip ''Entered by'' \<in> strip ` set (columns df)"
    by (rule imageI)
  then have m: "''Entered by'' \<in> set (map strip (columns df))"
    by (simp only: strip_Entered_by set_map)
  have r: "''Entered by'' \<in> set REQUIRED_COLUMNS"
    by (simp add: REQUIRED_COLUMNS_def)
  from m r have "''Entered by'' \<in> set (filter (\<lambda>required_col. required_col \<in> set (map strip (columns df)))
               REQUIRED_COLUMNS)"
    by (simp only: set_filter mem_Collect_eq simp_thms)
  then show ?thesis unfolding score_sheet_def by (rule length_pos_if_in_set)
qed

lemma analyze_sheets_skip:
  "\<not> (\<exists>d. r = Some d \<and> eligible d \<and> sc < score_sheet d) \<Longrightarrow>
   analyze_sheets ((n, r) # rest) (b, sc, bd) = analyze_sheets rest (b, sc, bd)"
  by (cases r) (auto simp: eligible_def)

lemma analyze_sheets_take:
  "eligible d \<Longrightarrow> sc < score_sheet d \<Longrightarrow>
   analyze_sheets ((n, Some d) # rest) (b, sc, bd) = analyze_sheets rest (Some n, score_sheet d, Some d)"
  by (auto simp: eligible_def)

lemma analyze_sheets_result:
  "analyze_sheets sheets (b, sc, bd) = (b, sc, bd) \<and> candidates_upto sc sheets
   \<or> (\<exists>pre name df post. sheets = pre @ (name, Some df) # post \<and> eligible df
        \<and> sc < score_sheet df
        \<and> analyze_sheets sheets (b, sc, bd) = (Some name, score_sheet df, Some df)
        \<and> candidates_below (score_sheet df) pre \<and> candidates_upto (score_sheet df) post)"
proof (induction sheets arbitrary: b sc bd)
  case Nil
  then show ?case by (simp add: candidates_upto_def)
next
  case (Cons s sheets)
  obtain n r where s: "s = (n, r)" by (cases s)
  show ?case
  proof (cases "\<exists>d. r = Some d \<and> eligible d \<and> sc < score_sheet d")
    case False
    then have step: "analyze_sheets (s # sheets) (b, sc, bd) = analyze_sheets sheets (b, sc, bd)"
      unfolding s by (rule analyze_sheets_skip)
    from False have head: "\<forall>d. r = Some d \<and> eligible d \<longrightarrow> score_sheet d \<le> sc" by auto
    from Cons.IH [of b sc bd] show ?thesis
    proof (elim disjE exE conjE)
      assume "analyze_sheets sheets (b, sc, bd) = (b, sc, bd)" "candidates_upto sc sheets"
      with step head show ?thesis by (auto simp: candidates_upto_def s)
    next
      fix pre name df post
      assume a: "sheets = pre @ (name, Some df) # post" "eligible df" "sc < score_sheet df"
        "analyze_sheets sheets (b, sc, bd) = (Some name, score_sheet df, Some df)"
        "candidates_below (score_sheet df) pre" "candidates_upto (score_sheet df) post"
      have "s # sheets = (s # pre) @ (name, Some df) # post" using a(1) by simp
      moreover have "candidates_below (score_sheet df) (s # pre)"
        using a(3,5) head by (auto simp: candidates_below_def s)
      ultimately have "s # sheets = (s # pre) @ (name, Some df) # post \<and> eligible df
          \<and> sc < score_sheet df
          \<and> analyze_sheets (s # sheets) (b, sc, bd) = (Some name, score_sheet df, Some df)
          \<and> candidates_below (score_sheet df) (s # pre) \<and> candidates_upto (score_sheet df) post"
        using a step by simp
      then show ?thesis by (intro disjI2 exI)
    qed
  next
    case True
    then obtain d where d: "r = Some d" "eligible d" "sc < score_sheet d" by blast
    have step: "analyze_sheets (s # sheets) (b, sc, bd)
                  = analyze_sheets sheets (Some n, score_sheet d, Some d)"
      unfolding s d(1) using d(2,3) by (rule analyze_sheets_take)
    from Cons.IH [of "Some n" "score_sheet d" "Some d"] show ?thesis
    proof (elim disjE exE conjE)
      assume "analyze_sheets sheets (Some n, score_sheet d, Some d) = (Some n, score_sheet d, Some d)"
        "candidates_upto (score_sheet d) sheets"
      moreover have "s # sheets = [] @ (n, Some d) # sheets" by (simp add: s d)
      moreover have "candidates_below (score_sheet d) []" by (simp add: candidates_below_def)
      ultimately have "s # sheets = [] @ (n, Some d) # sheets \<and> eligible d
          \<and> sc < score_sheet d
          \<and> analyze_sheets (s # sheets) (b, sc, bd) = (Some n, score_sheet d, Some d)
          \<and> candidates_below (score_sheet d) [] \<and> candidates_upto (score_sheet d) sheets"
        using step d by simp
      then show ?thesis by (intro disjI2 exI)
    next
      fix pre name df post
      assume a: "sheets = pre @ (name, Some df) # post" "eligible df" "score_sheet d < score_sheet df"
        "analyze_sheets sheets (Some n, score_sheet d, Some d) = (Some name, score_sheet df, Some df)"
        "candidates_below (score_sheet df) pre" "candidates_upto (score_sheet df) post"
      have "s # sheets = (s # pre) @ (name, Some df) # post" using a(1) by simp
      moreover have "candidates_below (score_sheet df) (s # pre)"
        using a(3,5) by (auto simp: candidates_below_def s d)
      moreover have "sc < score_sheet df" using d(3) a(3) by simp
      ultimately have "s # sheets = (s # pre) @ (name, Some df) # post \<and> eligible df
          \<and> sc < score_sheet df
          \<and> analyze_sheets (s # sheets) (b, sc, bd) = (Some name, score_sheet df, Some df)
          \<and> candidates_below (score_sheet df) (s # pre) \<and> candidates_upto (score_sheet df) post"
        using a step by simp
      then show ?thesis by (intro disjI2 exI)
    qed
  qed
qed

text \<open>
  C3. For every workbook (whose sheet names are not blank, as a spreadsheet file
  guarantees), \<^const>\<open>find_data_sheet\<close> answers not-found exactly when no sheet is
  eligible (read without error, not empty, both critical columns present, not a pivot
  table); otherwise it returns an eligible sheet such that every eligible sheet before
  it in workbook order scores strictly less and every eligible sheet after it scores at
  most as much: the highest score, the first such sheet on a tie.
\<close>
theorem find_data_sheet_best:
  assumes "\<forall>s \<in> set sheets. fst s \<noteq> []"
  shows "(find_data_sheet (Some sheets) = None
            \<longleftrightarrow> (\<forall>s \<in> set sheets. \<forall>d. snd s = Some d \<longrightarrow> \<not> eligible d))
       \<and> (\<forall>name df. find_data_sheet (Some sheets) = Some (name, df) \<longrightarrow>
             (\<exists>pre post. sheets = pre @ (name, Some df) # post \<and> eligible df
                \<and> candidates_below (score_sheet df) pre
                \<and> candidates_upto (score_sheet df) post))"
proof -
  have pos: "\<And>d. eligible d \<Longrightarrow> 0 < score_sheet d"
    by (simp add: eligible_def score_sheet_pos)
  from analyze_sheets_result [of sheets None 0 None] show ?thesis
  proof (elim disjE exE conjE)
    assume a: "analyze_sheets sheets (None, 0, None) = (None, 0, None)" "candidates_upto 0 sheets"
    then have "find_data_sheet (Some sheets) = None" by (simp add: find_data_sheet_def)
    moreover have "\<forall>s \<in> set sheets. \<forall>d. snd s = Some d \<longrightarrow> \<not> eligible d"
      using a(2) pos unfolding candidates_upto_def by fastforce
    ultimately show ?thesis by simp
  next
    fix pre name df post
    assume a: "sheets = pre @ (name, Some df) # post" "eligible df"
      "analyze_sheets sheets (None, 0, None) = (Some name, score_sheet df, Some df)"
      "candidates_below (score_sheet df) pre" "candidates_upto (score_sheet df) post"
    have "name \<noteq> []" using assms a(1) by auto
    then have f: "find_data_sheet (Some sheets) = Some (name, df)"
      using a(3) by (simp add: find_data_sheet_def)
    have "(name, Some df) \<in> set sheets" using a(1) by simp
    then have "\<not> (\<forall>s \<in> set sheets. \<forall>d. snd s = Some d \<longrightarrow> \<not> eligible d)"
      using a(2) by force
    with f a show ?thesis by auto
  qed
qed

theorem find_data_sheet_best_witness:
  "find_data_sheet (Some example_workbook) = Some (''Main data'', status_sheet)
   \<and> (\<exists>pre post. example_workbook = pre @ (''Main data'', Some status_sheet) # post
         \<and> eligible status_sheet
         \<and> candidates_below (score_sheet status_sheet) pre
         \<and> candidates_upto (score_sheet status_sheet) post)"
proof -
  have h: "\<forall>s \<in> set example_workbook. fst s \<noteq> []"
    by (simp add: example_workbook_def)
  have c: "first_few_cells status_sheet
             = [''on order'', ''zed'', ''received'', ''abe'', ''on order'', ''   '',
                ''received'', ''nan'', ''on order'', ''zed'']"
    by (simp add: status_sheet_def first_few_cells_def str_cell_def lower_def lower_char_def)
  have np: "\<not> is_real_pivot_table status_sheet"
    by (simp add: is_real_pivot_table_def gt_times_def pivot_indicator_found_def c
          pivot_indicators_def) (simp add: status_sheet_def)
  have cm: "first_few_cells marker_sheet
              = [''on order'', ''zed'', ''received'', ''abe'', ''grand total'', ''2'']"
    by (simp add: marker_sheet_def first_few_cells_def str_cell_def lower_def lower_char_def)
  have "pivot_indicator_found marker_sheet"
    by (simp add: pivot_indicator_found_def cm pivot_indicators_def)
  moreover have "3 \<le> length (rows marker_sheet)" by (simp add: marker_sheet_def)
  ultimately have p: "is_real_pivot_table marker_sheet"
    by (simp add: is_real_pivot_table_def)
  have cc: "has_critical_columns status_sheet" "has_critical_columns marker_sheet"
    "\<not> df_empty status_sheet" "\<not> df_empty marker_sheet"
    by (simp_all add: has_critical_columns_def df_empty_def status_sheet_def marker_sheet_def)
  have sc: "0 < score_sheet status_sheet"
    using cc(1) by (rule score_sheet_pos)
  have f: "find_data_sheet (Some example_workbook) = Some (''Main data'', status_sheet)"
    using np p cc sc by (simp add: find_data_sheet_def example_workbook_def)
  from find_data_sheet_best [OF h] f show ?thesis by simp
qed

section \<open>Properties of the mail service and the orchestrator\<close>

lemma search_contact_email_calls:
  "send_email_calls (snd (search_contact_email n s)) = send_email_calls s"
  by (simp add: search_contact_email_def Let_def split: prod.splits option.splits)

lemma send_email_calls_append:
  "send_email_calls (snd (send_email t sub b s)) = send_email_calls s @ [(t, sub)]"
proof -
  let ?s = "s\<lparr>send_email_calls := send_email_calls s @ [(t, sub)]\<rparr>"
  have "send_email_calls (snd (search_contact_email t ?s)) = send_email_calls s @ [(t, sub)]"
    by (simp add: search_contact_email_calls)
  then show ?thesis
    by (auto simp: send_email_def Let_def split: prod.splits option.splits)
qed

lemma send_each_result:
  "send_each msgs (ok, ko) s = ((ok', ko'), s') \<Longrightarrow>
     ok' + ko' = ok + ko + length msgs
   \<and> send_email_calls s' = send_email_calls s @ map (\<lambda>m. (to m, subject m)) msgs"
proof (induction msgs arbitrary: ok ko s)
  case Nil
  then show ?case by simp
next
  case (Cons m msgs)
  obtain success s1 where se: "send_email (to m) (subject m) (body m) s = (success, s1)"
    by (cases "send_email (to m) (subject m) (body m) s")
  have c1: "send_email_calls s1 = send_email_calls s @ [(to m, subject m)]"
    using send_email_calls_append [of "to m" "subject m" "body m" s] se by simp
  show ?case
  proof (cases success)
    case True
    with Cons.prems se have "send_each msgs (ok + 1, ko) s1 = ((ok', ko'), s')" by simp
    from Cons.IH [OF this] c1 show ?thesis by simp
  next
    case False
    with Cons.prems se have "send_each msgs (ok, ko + 1) s1 = ((ok', ko'), s')" by simp
    from Cons.IH [OF this] c1 show ?thesis by simp
  qed
qed

lemma send_bulk_emails_result:
  assumes "send_bulk_emails msgs s = ((ok, ko), s')"
  shows "ok + ko = length msgs
       \<and> send_email_calls s' = send_email_calls s @ map (\<lambda>m. (to m, subject m)) msgs"
  using send_each_result [OF assms [unfolded send_bulk_emails_def]] by simp

lemma resolve_groups_result:
  "resolve_groups template groups s = (entries, s') \<Longrightarrow>
     length entries = length groups
   \<and> map requester_name entries = map fst groups
   \<and> send_email_calls s' = send_email_calls s"
proof (induction groups arbitrary: s entries s')
  case Nil
  then show ?case by simp
next
  case (Cons g groups)
  obtain requester items_df where g: "g = (requester, items_df)" by (cases g)
  obtain resolved s1 where sc: "search_contact_email requester s = (resolved, s1)"
    by (cases "search_contact_email requester s")
  obtain es s2 where rg: "resolve_groups template groups s1 = (es, s2)"
    by (cases "resolve_groups template groups s1")
  have c: "send_email_calls s1 = send_email_calls s"
    using search_contact_email_calls [of requester s] sc by simp
  from Cons.prems have "s' = s2" and
    "entries = \<lparr>to = requester, subject = fst (template requester items_df),
                 body = snd (template requester items_df),
                 resolved_email = resolved, requester_name = requester,
                 item_count = length (rows items_df), email_found = (resolved \<noteq> None)\<rparr> # es"
    by (simp_all add: g sc rg Let_def)
  with Cons.IH [OF rg] c show ?case by (simp add: g)
qed

lemma generate_email_data_result:
  assumes "generate_email_data_with_resolution a = (email_data, a1)"
  shows "length email_data = length (get_grouped_data (excel_processor a))
       \<and> map requester_name email_data = map fst (get_grouped_data (excel_processor a))
       \<and> send_email_calls (email_service a1) = send_email_calls (email_service a)"
proof -
  obtain es s where rg: "resolve_groups (email_template a) (get_grouped_data (excel_processor a))
                           (email_service a) = (es, s)"
    by (cases "resolve_groups (email_template a) (get_grouped_data (excel_processor a))
                           (email_service a)")
  with assms have "email_data = es" "a1 = a\<lparr>email_service := s\<rparr>"
    by (simp_all add: generate_email_data_with_resolution_def)
  with resolve_groups_result [OF rg] show ?thesis by simp
qed

lemmas example_eval =
  send_emails_def manager_demo_mode_def generate_email_data_with_resolution_def
  get_grouped_data_def send_bulk_emails_def send_email_def search_contact_email_def
  address_shaped_def resolve_email_def outlook_search_def example_service_def
  example_mail_service_def example_items_def partial_match_def upper_def upper_char_def
  lower_def lower_char_def strip_def is_space_def demo_emails_def Let_def

lemma example_found:
  "map to (filter email_found (fst (generate_email_data_with_resolution example_service)))
     = [''ABE'', ''BEA'', ''CAL'', ''DEE'', ''ZED'']"
  by (simp add: example_eval)

lemma example_groups_length:
  "length (get_grouped_data (excel_processor example_service)) = 6"
  by (simp add: example_service_def get_grouped_data_def)

text \<open>
  C7. In live mode, once the operator has confirmed, \<^verbatim>\<open>send_email\<close> is called for
  exactly the entries whose recipient resolved, in order, and for no other; the successful
  and failed counts reported add up to the number of those entries.
\<close>
theorem live_dispatch_counts:
  assumes "send_emails False inputs a = Some ((successful, unsuccessful, Live u), a')"
  shows "successful + unsuccessful
           = length (filter email_found (fst (generate_email_data_with_resolution a)))
       \<and> send_email_calls (email_service a')
           = send_email_calls (email_service a)
             @ map (\<lambda>e. (to e, subject e))
                 (filter email_found (fst (generate_email_data_with_resolution a)))"
proof -
  obtain email_data a1 where g: "generate_email_data_with_resolution a = (email_data, a1)"
    by (cases "generate_email_data_with_resolution a")
  obtain ok ko s where sb:
    "send_bulk_emails (filter email_found email_data) (email_service a1) = ((ok, ko), s)"
    by (cases "send_bulk_emails (filter email_found email_data) (email_service a1)") auto
  from assms have "successful = ok" "unsuccessful = ko" "a' = a1\<lparr>email_service := s\<rparr>"
    by (auto simp: send_emails_def g sb Let_def split: list.splits if_splits)
  with send_bulk_emails_result [OF sb] generate_email_data_result [OF g] show ?thesis
    by (simp add: g)
qed

theorem live_dispatch_counts_witness:
  "\<exists>u a'. send_emails False [''SEND LIVE''] example_service = Some ((5, 0, Live u), a')
         \<and> map fst (send_email_calls (email_service a')) = [''ABE'', ''BEA'', ''CAL'', ''DEE'', ''ZED'']"
proof -
  have "\<exists>u a'. send_emails False [''SEND LIVE''] example_service = Some ((5, 0, Live u), a')"
    by (simp add: example_eval)
  then obtain u a' where
    r: "send_emails False [''SEND LIVE''] example_service = Some ((5, 0, Live u), a')"
    by blast
  have c: "send_email_calls (email_service example_service) = []"
    by (simp add: example_service_def example_mail_service_def)
  from live_dispatch_counts [OF r]
  have "map fst (send_email_calls (email_service a'))
          = map to (filter email_found (fst (generate_email_data_with_resolution example_service)))"
    by (simp add: c comp_def)
  with r show ?thesis by (auto simp: example_found)
qed

lemma length_demo_emails:
  "length (demo_emails demo_data test_emails) = length demo_data * length test_emails"
  by (induction demo_data) (simp_all add: demo_emails_def)

lemma calls_demo_emails:
  "map (\<lambda>m. (to m, subject m)) (demo_emails demo_data test_emails)
     = concat (map (\<lambda>e. map (\<lambda>t. (t, demo_subject e)) test_emails) demo_data)"
  by (induction demo_data) (simp_all add: demo_emails_def comp_def)

text \<open>
  C10. In demo mode every group is resolved (one entry per group), and when the demo is
  carried out \<^verbatim>\<open>send_email\<close> is called exactly once for each pair of one of the first
  five entries and one test address, addressed to the test address: the number of
  messages is the smaller of 5 and the number of groups, times the number of test
  addresses, hence at most five times the number of test addresses.
\<close>
theorem demo_dispatch_calls:
  assumes "manager_demo_mode inputs a
             = Some ((successful, unsuccessful, Demo test_emails requesters u), a')"
  shows "length (fst (generate_email_data_with_resolution a))
           = length (get_grouped_data (excel_processor a))
       \<and> send_email_calls (email_service a')
           = send_email_calls (email_service a)
             @ concat (map (\<lambda>e. map (\<lambda>t. (t, demo_subject e)) test_emails)
                         (take 5 (fst (generate_email_data_with_resolution a))))
       \<and> successful + unsuccessful
           = min 5 (length (get_grouped_data (excel_processor a))) * length test_emails
       \<and> successful + unsuccessful \<le> 5 * length test_emails"
proof -
  obtain email_data a1 where g: "generate_email_data_with_resolution a = (email_data, a1)"
    by (cases "generate_email_data_with_resolution a")
  note gr = generate_email_data_result [OF g]
  from assms obtain inputs1 where
    rt: "read_test_emails inputs [] = Some (test_emails, inputs1)"
    by (auto simp: manager_demo_mode_def g Let_def split: if_splits option.splits list.splits prod.splits)
  obtain ok ko s where sb:
    "send_bulk_emails (demo_emails (take 5 email_data) test_emails) (email_service a1) = ((ok, ko), s)"
    by (cases "send_bulk_emails (demo_emails (take 5 email_data) test_emails) (email_service a1)") auto
  from assms have r: "successful = ok" "unsuccessful = ko" "a' = a1\<lparr>email_service := s\<rparr>"
    by (auto simp: manager_demo_mode_def g rt sb Let_def split: if_splits list.splits)
  note br = send_bulk_emails_result [OF sb]
  have n: "ok + ko = min 5 (length email_data) * length test_emails"
    using br by (simp add: length_demo_emails min.commute)
  have "min 5 (length email_data) * length test_emails \<le> 5 * length test_emails"
    by (rule mult_le_mono1) simp
  with n br gr r show ?thesis
    by (simp add: g calls_demo_emails)
qed

theorem demo_dispatch_calls_witness:
  "\<exists>u a'. manager_demo_mode [''boss@example.com'', ''no address'', '''', ''Yes''] example_service
           = Some ((5, 0, Demo [''boss@example.com''] [''ABE'', ''BEA'', ''CAL'', ''DEE'', ''QUX''] u), a')
         \<and> length (send_email_calls (email_service a')) = 5"
proof -
  have "\<exists>u a'. manager_demo_mode [''boss@example.com'', ''no address'', '''', ''Yes''] example_service
           = Some ((5, 0, Demo [''boss@example.com''] [''ABE'', ''BEA'', ''CAL'', ''DEE'', ''QUX''] u), a')"
    by (simp add: example_eval)
  then obtain u a' where
    r: "manager_demo_mode [''boss@example.com'', ''no address'', '''', ''Yes''] example_service
           = Some ((5, 0, Demo [''boss@example.com''] [''ABE'', ''BEA'', ''CAL'', ''DEE'', ''QUX''] u), a')"
    by blast
  have c: "send_email_calls (email_service example_service) = []"
    by (simp add: example_service_def example_mail_service_def)
  from demo_dispatch_calls [OF r]
  have "length (send_email_calls (email_service a'))
          = length (concat (map (\<lambda>e. map (\<lambda>t. (t, demo_subject e)) [''boss@example.com''])
                              (take 5 (fst (generate_email_data_with_resolution example_service)))))"
    and "length (fst (generate_email_data_with_resolution example_service)) = 6"
    by (simp_all add: c example_groups_length)
  then have "length (send_email_calls (email_service a')) = 5"
    by (simp add: length_concat comp_def sum_list_triv)
  with r show ?thesis by auto
qed


lemma resolve_email_None:
  "resolve_email n r = (None, r') \<Longrightarrow>
     r' = (if n = [] then r else r\<lparr>unmapped_users := insert n (unmapped_users r)\<rparr>)"
  by (auto simp: resolve_email_def Let_def split: if_splits option.splits)

lemma resolve_email_Some:
  "resolve_email n r = (Some e, r') \<Longrightarrow> r' = r \<and> e \<in> snd ` set (email_mapping r)"
proof -
  assume a: "resolve_email n r = (Some e, r')"
  show ?thesis
  proof (cases "map_of (email_mapping r) (upper (strip n))")
    case (Some e1)
    with a have "e = e1" "r' = r" by (auto simp: resolve_email_def Let_def split: if_splits)
    moreover from Some have "(upper (strip n), e1) \<in> set (email_mapping r)" by (rule map_of_SomeD)
    ultimately show ?thesis by force
  next
    case None
    with a obtain kv where "find (partial_match (upper (strip n))) (email_mapping r) = Some kv"
      "e = snd kv" "r' = r"
      by (auto simp: resolve_email_def Let_def split: if_splits option.splits)
    moreover then have "kv \<in> set (email_mapping r)" by (auto simp: find_Some_iff)
    ultimately show ?thesis by force
  qed
qed

text \<open>
  What a call of \<^const>\<open>search_contact_email\<close> does to \<^verbatim>\<open>unmapped_users\<close>: the
  identifier, as given, is added exactly when it is non-empty, not address-shaped and the
  dictionary resolver finds nothing; this happens inside \<^const>\<open>resolve_email\<close>, before
  the directory lookup is tried, and the lookup does not take it out again. So whenever
  the directory lookup resolves an identifier (the mapping's addresses being non-empty),
  that identifier has been put into \<^verbatim>\<open>unmapped_users\<close>.
\<close>
lemma search_contact_email_unmapped_users:
  "unmapped_users (email_resolver (snd (search_contact_email name s)))
     = (if name \<noteq> [] \<and> \<not> address_shaped name
           \<and> fst (resolve_email name (email_resolver s)) = None
        then insert name (unmapped_users (email_resolver s))
        else unmapped_users (email_resolver s))
   \<and> ((\<forall>kv \<in> set (email_mapping (email_resolver s)). snd kv \<noteq> [])
        \<and> outlook_resolved (resolution_stats (snd (search_contact_email name s)))
            = Suc (outlook_resolved (resolution_stats s))
        \<longrightarrow> name \<in> unmapped_users (email_resolver (snd (search_contact_email name s))))"
proof (cases "name = [] \<or> address_shaped name")
  case True
  then show ?thesis by (auto simp: search_contact_email_def)
next
  case False
  obtain m r where re: "resolve_email name (email_resolver s) = (m, r)"
    by (cases "resolve_email name (email_resolver s)")
  show ?thesis
  proof (cases m)
    case None
    with re False have r: "r = (email_resolver s)\<lparr>unmapped_users := insert name (unmapped_users (email_resolver s))\<rparr>"
      using resolve_email_None [of name "email_resolver s" r] by simp
    from False re None show ?thesis
      by (auto simp: search_contact_email_def r Let_def split: option.splits)
  next
    case (Some e)
    with re have r: "r = email_resolver s" and e: "e \<in> snd ` set (email_mapping (email_resolver s))"
      using resolve_email_Some [of name "email_resolver s" e r] by simp_all
    from False re Some r have u: "unmapped_users (email_resolver (snd (search_contact_email name s)))
            = unmapped_users (email_resolver s)"
      by (auto simp: search_contact_email_def Let_def split: option.splits)
    have "(\<forall>kv \<in> set (email_mapping (email_resolver s)). snd kv \<noteq> []) \<Longrightarrow>
          outlook_resolved (resolution_stats (snd (search_contact_email name s)))
            = outlook_resolved (resolution_stats s)"
    proof -
      assume "\<forall>kv \<in> set (email_mapping (email_resolver s)). snd kv \<noteq> []"
      with e have "e \<noteq> []" by auto
      with False re Some r show ?thesis
        by (simp add: search_contact_email_def Let_def)
    qed
    with u re Some show ?thesis by auto
  qed
qed

lemma example_ZED:
  "search_contact_email ''ZED'' example_mail_service
     = (Some ''zoe.zed@example.com'',
        example_mail_service
          \<lparr>email_resolver := (email_resolver example_mail_service)\<lparr>unmapped_users := {''ZED''}\<rparr>,
           resolution_stats := \<lparr>mapped = 0, outlook_resolved = 1, fallback_used = 0, failed = 0\<rparr>\<rparr>)"
  by (simp add: search_contact_email_def address_shaped_def resolve_email_def outlook_search_def
        example_mail_service_def partial_match_def upper_def upper_char_def lower_def
        lower_char_def strip_def is_space_def Let_def)

text \<open>
  C1. Only identifiers that no tier resolved should be in \<^verbatim>\<open>unmapped_users\<close>. On the
  code this breaks for the directory tier: \<open>ZED\<close> is not in the mapping, the directory
  lookup resolves it (the \<^verbatim>\<open>outlook_resolved\<close> counter goes up, the \<^verbatim>\<open>failed\<close>
  counter does not), and yet \<open>ZED\<close> is in \<^verbatim>\<open>unmapped_users\<close> afterwards, so that
  the export lists it with the status \<open>Email Not Found\<close>.
\<close>
theorem tier3_resolved_in_unmapped:
  "fst (search_contact_email ''ZED'' example_mail_service) = Some ''zoe.zed@example.com''
   \<and> outlook_resolved (resolution_stats (snd (search_contact_email ''ZED'' example_mail_service))) = 1
   \<and> failed (resolution_stats (snd (search_contact_email ''ZED'' example_mail_service))) = 0
   \<and> ''ZED'' \<in> unmapped_users (email_resolver (snd (search_contact_email ''ZED'' example_mail_service)))
   \<and> export_unmapped_users ''live''
        (example_service\<lparr>email_service := snd (search_contact_email ''ZED'' example_mail_service)\<rparr>)
       = Some {\<lparr>Username = ''ZED'', Status = ''Email Not Found'', Mode = ''live'',
                Recommended_Action = ''Add to email mapping file or verify username''\<rparr>}"
  by (simp add: example_ZED export_unmapped_users_def)

text \<open>
  In the live run of the example, \<open>ZED\<close> is among the recipients \<^verbatim>\<open>send_email\<close> is
  called for and among the unmapped users reported.
\<close>
lemma live_run_mails_and_exports_ZED:
  "\<exists>successful unsuccessful u a'.
      send_emails False [''SEND LIVE''] example_service = Some ((successful, unsuccessful, Live u), a')
    \<and> (''ZED'', ''ERF Status Update'') \<in> set (send_email_calls (email_service a'))
    \<and> ''ZED'' \<in> u
    \<and> u = unmapped_users (email_resolver (email_service a'))"
  by (simp add: example_eval)

end
